theory Spec2Isabelle
  imports Main
begin

section \<open>The reactive state engine of \<open>src/state/reactive-state.ts\<close>\<close>

subsection \<open>Values, errors and user callbacks\<close>

text \<open>
  The engine is generic in the type of the values it stores. At run time these are
  JavaScript values; the ones the engine itself produces are \<open>undefined\<close> (the
  uninitialised \<open>currentValue\<close> of a derived state, the result of a \<open>void\<close>
  function), \<open>null\<close> (the dummy cells of \<open>createComputed\<close> and
  \<open>createReactiveEffect\<close>) and the boolean returned by \<open>Set.delete\<close>. Numbers are
  modelled as integers (integer valued doubles; \<open>NaN\<close> is left out), so that the
  strict comparison \<open>!==\<close> of the source is inequality of \<open>val\<close>.
\<close>

datatype val = Undefined | Null | Bool bool | Num int

text \<open>
  What is thrown: \<open>new Error(msg)\<close> by the source and by callbacks; the
  \<open>ReferenceError\<close> of a callback that goes through a binding that holds no state yet
  (\<open>const d = a.derive(x => d.value())\<close> while \<open>derive\<close> is still running); and the
  \<open>RangeError\<close> (``Maximum call stack size exceeded'') that the JavaScript engine
  throws when calls nest deeper than its stack allows. It is an exception like any other:
  it unwinds through \<open>finally\<close> and reaches the caller.
\<close>

datatype error = Error string | ReferenceError | RangeError

type_synonym ref = nat

text \<open>
  The functions a caller hands to the engine (\<open>fn\<close> of \<open>derive\<close>, the callbacks of
  \<open>subscribe\<close>, the body of an effect, the updater of \<open>setValue\<close>, the thunks of
  \<open>batch\<close>) are arbitrary JavaScript. What matters of them to the engine is how they
  call back into it, so a callback is the tree of its interactions: it returns, throws,
  calls \<open>value()\<close> of a state and goes on with the result, calls \<open>setValue(v)\<close> of a
  state, or does something visible outside the engine (\<open>log.push(v)\<close>), recorded in the
  \<open>trace\<close> of the state below. Callbacks do not subscribe or derive.
\<close>

datatype prog =
    Ret val
  | Throw error
  | Read ref "val \<Rightarrow> prog"
  | Write ref val prog
  | Emit val prog

text \<open>A function object: its identity (what a \<open>Set\<close> compares) and its behaviour.\<close>

type_synonym callback = "nat \<times> (val \<Rightarrow> prog)"

text \<open>The argument of \<open>setValue\<close>: \<open>T | ((prev: T) => T)\<close>.\<close>

datatype setter = Val val | Upd "val \<Rightarrow> prog"

subsection \<open>The state of the engine\<close>

text \<open>
  \<open>createReactiveState\<close> and \<open>createDerivedState\<close> return a bundle of closures over
  local variables; a node of the heap holds these variables. \<open>subscribers\<close> and
  \<open>derivedStates\<close> are \<open>Set\<close>s, iterated in insertion order, hence lists.
\<close>

datatype node =
    Cell (currentValue: val) (subscribers: "callback list") (derivedStates: "ref list")
  | Derived (fn: "val \<Rightarrow> prog") (dependency: ref) (currentValue: val) (isDirty: bool)
      (subscribers: "callback list")

text \<open>
  The two module level variables, the heap of nodes, and the trace of what callbacks
  did outside the engine. \<open>currentComputation\<close> is an object made afresh by every
  \<open>compute\<close>; it is kept as the reference of the derived state that made it. The
  \<open>dependencyGraph\<close> is a \<open>Map\<close> from these objects to sets of objects made afresh by
  every tracked read, so that every tracked read adds an entry: it is the list of the
  pairs (computation, cell read). The source only ever adds to it.
\<close>

record state =
  currentComputation :: "ref option"
  dependencyGraph :: "(ref \<times> ref) list"
  heap :: "node list"
  trace :: "val list"

definition init :: state where
  "init = \<lparr>currentComputation = None, dependencyGraph = [], heap = [], trace = []\<rparr>"

definition lookup :: "state \<Rightarrow> ref \<Rightarrow> node option" where
  "lookup st r = (if r < length (heap st) then Some (heap st ! r) else None)"

definition store :: "ref \<Rightarrow> node \<Rightarrow> state \<Rightarrow> state" where
  "store r nd st = st\<lparr>heap := (heap st)[r := nd]\<rparr>"

definition alloc :: "node \<Rightarrow> state \<Rightarrow> state" where
  "alloc nd st = st\<lparr>heap := heap st @ [nd]\<rparr>"

subsection \<open>Results: a value or a thrown error, and the state after\<close>

text \<open>
  The functions of the engine call each other and the callbacks without bound (a
  subscriber may write the cell that notifies it, a derived state may read itself). In
  the source such a recursion ends when the call stack of the engine is used up, with
  a \<open>RangeError\<close> thrown at that point. So the functions below take a budget, the stack
  that is left, and a call with no budget left throws \<open>RangeError\<close>. How much stack a
  call takes is the engine's business: the model charges one unit for every call, every
  step of a loop and every step of a callback, and the theorems hold for every budget,
  or for every budget from some bound on. With this every call has a result; \<open>None\<close>
  is the result of none.
\<close>

type_synonym 'a result = "((error + 'a) \<times> state) option"

definition ret :: "'a \<Rightarrow> state \<Rightarrow> 'a result" where
  "ret x st = Some (Inr x, st)"

definition throw :: "error \<Rightarrow> state \<Rightarrow> 'a result" where
  "throw e st = Some (Inl e, st)"

definition bnd :: "'a result \<Rightarrow> ('a \<Rightarrow> state \<Rightarrow> 'b result) \<Rightarrow> 'b result" where
  "bnd m k = (case m of None \<Rightarrow> None
     | Some (Inl e, st) \<Rightarrow> Some (Inl e, st)
     | Some (Inr x, st) \<Rightarrow> k x st)"

text \<open>\<open>try { m } finally { h }\<close>, for an \<open>h\<close> that does not throw.\<close>

definition try_finally :: "'a result \<Rightarrow> (state \<Rightarrow> state) \<Rightarrow> 'a result" where
  "try_finally m h = (case m of None \<Rightarrow> None | Some (x, st) \<Rightarrow> Some (x, h st))"

text \<open>
  \<open>try { r = m } catch (e) { r = e }\<close> by a caller of the engine: the error is a value,
  the state is the one the call left.
\<close>

definition attempt :: "'a result \<Rightarrow> (error + 'a) result" where
  "attempt m = (case m of None \<Rightarrow> None | Some (r, st) \<Rightarrow> Some (Inr r, st))"

subsection \<open>\<open>value\<close>, \<open>compute\<close>, \<open>setValue\<close>, \<open>update\<close>\<close>

text \<open>The tracking of \<open>value\<close> of a cell (lines 26 to 33).\<close>

definition track :: "ref \<Rightarrow> state \<Rightarrow> state" where
  "track r st = (case currentComputation st of
       None \<Rightarrow> st
     | Some c \<Rightarrow> st\<lparr>dependencyGraph := dependencyGraph st @ [(c, r)]\<rparr>)"

text \<open>The variable \<open>currentValue\<close> of a node, as a closure reads it.\<close>

definition currentValue_of :: "state \<Rightarrow> ref \<Rightarrow> val" where
  "currentValue_of st r = (case lookup st r of Some nd \<Rightarrow> currentValue nd | None \<Rightarrow> Undefined)"

definition subscribers_of :: "state \<Rightarrow> ref \<Rightarrow> callback list" where
  "subscribers_of st r = (case lookup st r of Some nd \<Rightarrow> subscribers nd | None \<Rightarrow> [])"

text \<open>\<open>currentValue = nextValue\<close> of \<open>setValue\<close> (line 44).\<close>

definition assign :: "ref \<Rightarrow> val \<Rightarrow> state \<Rightarrow> state" where
  "assign r v st = (case lookup st r of
       Some (Cell _ subs ds) \<Rightarrow> store r (Cell v subs ds) st
     | _ \<Rightarrow> st)"

text \<open>\<open>currentValue = ...; isDirty = false\<close> of \<open>compute\<close> (lines 105 and 106).\<close>

definition cache :: "ref \<Rightarrow> val \<Rightarrow> state \<Rightarrow> state" where
  "cache r v st = (case lookup st r of
       Some (Derived f dep _ _ subs) \<Rightarrow> store r (Derived f dep v False subs) st
     | _ \<Rightarrow> st)"

text \<open>\<open>isDirty = true\<close> of \<open>update\<close> (line 138).\<close>

definition mark_dirty :: "ref \<Rightarrow> state \<Rightarrow> state" where
  "mark_dirty r st = (case lookup st r of
       Some (Derived f dep v _ subs) \<Rightarrow> store r (Derived f dep v True subs) st
     | _ \<Rightarrow> st)"

text \<open>
  \<open>run_f\<close> runs a callback. \<open>forEach_f n g cbs\<close> is
  \<open>subscribers.forEach(callback => callback(x))\<close>, where \<open>g\<close> reads \<open>x\<close> in the state
  of the moment: the cell passes its variable \<open>currentValue\<close> (line 47), the derived
  state the constant \<open>newValue\<close> (line 143). \<open>updateAll_f\<close> is the
  \<open>derivedStates.forEach\<close> of lines 50 to 54.
\<close>

function (sequential) value_f :: "nat \<Rightarrow> ref \<Rightarrow> state \<Rightarrow> val result"
and compute_f :: "nat \<Rightarrow> ref \<Rightarrow> state \<Rightarrow> val result"
and setValue_f :: "nat \<Rightarrow> ref \<Rightarrow> setter \<Rightarrow> state \<Rightarrow> val result"
and update_f :: "nat \<Rightarrow> ref \<Rightarrow> state \<Rightarrow> val result"
and forEach_f :: "nat \<Rightarrow> (state \<Rightarrow> val) \<Rightarrow> callback list \<Rightarrow> state \<Rightarrow> val result"
and updateAll_f :: "nat \<Rightarrow> ref list \<Rightarrow> state \<Rightarrow> val result"
and run_f :: "nat \<Rightarrow> prog \<Rightarrow> state \<Rightarrow> val result"
where
  "value_f 0 r st = throw RangeError st"
| "value_f (Suc n) r st = (case lookup st r of
       None \<Rightarrow> throw ReferenceError st
     | Some (Cell v subs ds) \<Rightarrow> ret v (track r st)
     | Some (Derived f dep v dirty subs) \<Rightarrow> compute_f n r st)"
| "compute_f 0 r st = throw RangeError st"
| "compute_f (Suc n) r st = (case lookup st r of
       Some (Derived f dep v dirty subs) \<Rightarrow>
         if dirty then
           try_finally
             (bnd (value_f n dep (st\<lparr>currentComputation := Some r\<rparr>)) (\<lambda>x st1.
              bnd (run_f n (f x) st1) (\<lambda>y st2.
              ret y (cache r y st2))))
             (\<lambda>st3. st3\<lparr>currentComputation := currentComputation st\<rparr>)
         else ret v st
     | _ \<Rightarrow> throw ReferenceError st)"
| "setValue_f 0 r a st = throw RangeError st"
| "setValue_f (Suc n) r a st = (case lookup st r of
       None \<Rightarrow> throw ReferenceError st
     | Some (Derived f dep v dirty subs) \<Rightarrow>
         throw (Error ''Cannot set value on derived state'') st
     | Some (Cell v subs ds) \<Rightarrow>
         bnd (case a of Val x \<Rightarrow> ret x st | Upd g \<Rightarrow> run_f n (g v) st) (\<lambda>nextValue st1.
           if nextValue \<noteq> currentValue_of st1 r then
             bnd (forEach_f n (\<lambda>s. currentValue_of s r) (subscribers_of st1 r)
                    (assign r nextValue st1)) (\<lambda>_ st2.
             updateAll_f n ds st2)
           else ret Undefined st1))"
| "update_f 0 r st = throw RangeError st"
| "update_f (Suc n) r st = (case lookup st r of
       Some (Derived f dep oldValue dirty subs) \<Rightarrow>
         bnd (compute_f n r (mark_dirty r st)) (\<lambda>newValue st1.
           if newValue \<noteq> oldValue
           then forEach_f n (\<lambda>_. newValue) (subscribers_of st1 r) st1
           else ret Undefined st1)
     | _ \<Rightarrow> ret Undefined st)"
| "forEach_f 0 g cbs st = throw RangeError st"
| "forEach_f (Suc n) g [] st = ret Undefined st"
| "forEach_f (Suc n) g (cb # cbs) st =
     bnd (run_f n (snd cb (g st)) st) (\<lambda>_ st1. forEach_f n g cbs st1)"
| "updateAll_f 0 ds st = throw RangeError st"
| "updateAll_f (Suc n) [] st = ret Undefined st"
| "updateAll_f (Suc n) (d # ds) st =
     bnd (update_f n d st) (\<lambda>_ st1. updateAll_f n ds st1)"
| "run_f 0 p st = throw RangeError st"
| "run_f (Suc n) (Ret v) st = ret v st"
| "run_f (Suc n) (Throw e) st = throw e st"
| "run_f (Suc n) (Read r k) st = bnd (value_f n r st) (\<lambda>x st1. run_f n (k x) st1)"
| "run_f (Suc n) (Write r v p) st =
     bnd (setValue_f n r (Val v) st) (\<lambda>_ st1. run_f n p st1)"
| "run_f (Suc n) (Emit v p) st = run_f n p (st\<lparr>trace := trace st @ [v]\<rparr>)"
  by pat_completeness auto

text \<open>Every call passes on less budget than it got.\<close>

termination
  by (relation "measure (case_sum (case_sum fst (case_sum fst fst))
        (case_sum (case_sum fst fst) (case_sum fst fst)))") auto

subsection \<open>The exported functions\<close>

definition createReactiveState :: "val \<Rightarrow> state \<Rightarrow> ref result" where
  "createReactiveState initialValue st = ret (length (heap st)) (alloc (Cell initialValue [] []) st)"

text \<open>
  \<open>createDerivedState\<close>: the variables of the new state, then \<open>compute()\<close> (line 148),
  then the bundle of closures is returned. When \<open>compute\<close> throws the caller gets no
  reference; the node stays behind in the heap.
\<close>

definition createDerivedState_f :: "nat \<Rightarrow> (val \<Rightarrow> prog) \<Rightarrow> ref \<Rightarrow> state \<Rightarrow> ref result" where
  "createDerivedState_f n f dep st =
     (let r = length (heap st) in
      bnd (compute_f n r (alloc (Derived f dep Undefined True []) st)) (\<lambda>_ st1. ret r st1))"

text \<open>\<open>Set.add\<close> and \<open>Set.delete\<close> on the insertion ordered sets.\<close>

definition set_add :: "'a \<Rightarrow> 'a list \<Rightarrow> 'a list" where
  "set_add x xs = (if x \<in> set xs then xs else xs @ [x])"

definition add_callback :: "callback \<Rightarrow> callback list \<Rightarrow> callback list" where
  "add_callback cb cbs = (if fst cb \<in> set (map fst cbs) then cbs else cbs @ [cb])"

definition delete_callback :: "nat \<Rightarrow> callback list \<Rightarrow> callback list" where
  "delete_callback i cbs = filter (\<lambda>cb. fst cb \<noteq> i) cbs"

definition map_subscribers :: "(callback list \<Rightarrow> callback list) \<Rightarrow> node \<Rightarrow> node" where
  "map_subscribers g nd = (case nd of
       Cell v subs ds \<Rightarrow> Cell v (g subs) ds
     | Derived f dep v dirty subs \<Rightarrow> Derived f dep v dirty (g subs))"

text \<open>
  \<open>derive\<close> of a cell (lines 63 to 72) registers the new state in \<open>derivedStates\<close>;
  \<open>derive\<close> of a derived state (lines 127 to 135) registers it nowhere.
\<close>

definition derive_f :: "nat \<Rightarrow> ref \<Rightarrow> (val \<Rightarrow> prog) \<Rightarrow> state \<Rightarrow> ref result" where
  "derive_f n r f st = (case lookup st r of
       None \<Rightarrow> throw ReferenceError st
     | Some (Cell _ _ _) \<Rightarrow>
         bnd (createDerivedState_f n f r st) (\<lambda>d st1.
           ret d (case lookup st1 r of
                    Some (Cell v subs ds) \<Rightarrow> store r (Cell v subs (set_add d ds)) st1
                  | _ \<Rightarrow> st1))
     | Some (Derived _ _ _ _ _) \<Rightarrow> createDerivedState_f n f r st)"

text \<open>
  \<open>subscribe\<close> returns the closure \<open>() => subscribers.delete(callback)\<close>: the state and
  the identity of the callback, which \<open>unsubscribe\<close> runs.
\<close>

definition subscribe :: "ref \<Rightarrow> callback \<Rightarrow> state \<Rightarrow> (ref \<times> nat) result" where
  "subscribe r cb st = (case lookup st r of
       None \<Rightarrow> throw ReferenceError st
     | Some nd \<Rightarrow> ret (r, fst cb) (store r (map_subscribers (add_callback cb) nd) st))"

definition unsubscribe :: "ref \<times> nat \<Rightarrow> state \<Rightarrow> val result" where
  "unsubscribe h st = (case lookup st (fst h) of
       None \<Rightarrow> throw ReferenceError st
     | Some nd \<Rightarrow> ret (Bool (snd h \<in> set (map fst (subscribers nd))))
         (store (fst h) (map_subscribers (delete_callback (snd h)) nd) st))"

definition createComputed_f :: "nat \<Rightarrow> prog \<Rightarrow> state \<Rightarrow> ref result" where
  "createComputed_f n p st =
     bnd (createReactiveState Null st) (\<lambda>dummy st1. derive_f n dummy (\<lambda>_. p) st1)"

definition createReactiveEffect_f :: "nat \<Rightarrow> prog \<Rightarrow> state \<Rightarrow> (ref \<times> nat) result" where
  "createReactiveEffect_f n p st =
     bnd (createReactiveState Null st) (\<lambda>dummy st1.
     bnd (subscribe dummy (0, \<lambda>_. p) st1) (\<lambda>unsub st2.
     bnd (run_f n p st2) (\<lambda>_ st3. ret unsub st3)))"

text \<open>\<open>batch\<close> takes an array of thunks and calls them in turn (line 192).\<close>

fun batch_f :: "nat \<Rightarrow> prog list \<Rightarrow> state \<Rightarrow> val result" where
  "batch_f n [] st = ret Undefined st"
| "batch_f n (u # us) st = bnd (run_f n u st) (\<lambda>_ st1. batch_f n us st1)"

definition createSelector_f :: "nat \<Rightarrow> ref \<Rightarrow> (val \<Rightarrow> prog) \<Rightarrow> state \<Rightarrow> ref result" where
  "createSelector_f n r selector st = derive_f n r selector st"


subsection \<open>Predicates on states used in the statements below\<close>

text \<open>
  \<open>unregistered d st\<close>: no cell has the state \<open>d\<close> in its \<open>derivedStates\<close>.
  \<open>detached d nd st\<close>: \<open>d\<close> is the derived state \<open>nd\<close>, it is not dirty and it is
  unregistered. \<open>wf_heap\<close>: the members of every \<open>derivedStates\<close> set are allocated,
  as they are in every state the exported functions build.
\<close>

definition unregistered :: "ref \<Rightarrow> state \<Rightarrow> bool" where
  "unregistered d st = list_all (\<lambda>nd. case nd of
       Cell _ _ ds \<Rightarrow> d \<notin> set ds
     | Derived _ _ _ _ _ \<Rightarrow> True) (heap st)"

definition detached :: "ref \<Rightarrow> node \<Rightarrow> state \<Rightarrow> bool" where
  "detached d nd st = (lookup st d = Some nd
     \<and> (case nd of Derived _ _ _ dirty _ \<Rightarrow> \<not> dirty | Cell _ _ _ \<Rightarrow> False)
     \<and> unregistered d st)"

definition wf_heap :: "state \<Rightarrow> bool" where
  "wf_heap st = list_all (\<lambda>nd. case nd of
       Cell _ _ ds \<Rightarrow> list_all (\<lambda>d. d < length (heap st)) ds
     | Derived _ _ _ _ _ \<Rightarrow> True) (heap st)"

subsection \<open>Callbacks and states of the scenarios\<close>

text \<open>\<open>x => x * 2\<close> and the like, on numbers.\<close>

fun num_map :: "(int \<Rightarrow> int) \<Rightarrow> val \<Rightarrow> val" where
  "num_map g (Num i) = Num (g i)"
| "num_map g v = Undefined"

text \<open>\<open>v => { log.push(v) }\<close>\<close>

definition logger :: "val \<Rightarrow> prog" where
  "logger v = Emit v (Ret Undefined)"

text \<open>A cell holding 5 with one subscriber, the logger.\<close>

definition st_logged :: state where
  "st_logged = \<lparr>currentComputation = None, dependencyGraph = [],
     heap = [Cell (Num 5) [(0, logger)] []], trace = []\<rparr>"

text \<open>A cell holding 1, with no subscriber and no derived state.\<close>

definition st_one :: state where
  "st_one = \<lparr>currentComputation = None, dependencyGraph = [],
     heap = [Cell (Num 1) [] []], trace = []\<rparr>"

text \<open>
  The state after \<open>a = createReactiveState(1)\<close> and
  \<open>d = a.derive(x => { log.push(x); return x })\<close>, with the log emptied.
\<close>

definition st_derived :: state where
  "st_derived = \<lparr>currentComputation = None, dependencyGraph = [(1, 0)],
     heap = [Cell (Num 1) [] [1], Derived (\<lambda>x. Emit x (Ret x)) 0 (Num 1) False []],
     trace = []\<rparr>"

text \<open>\<open>x => { if (x === 1) throw new Error("boom"); return x }\<close>\<close>

definition thrower :: "val \<Rightarrow> prog" where
  "thrower x = (if x = Num 1 then Throw (Error ''boom'') else Ret x)"

text \<open>
  The state after \<open>a = createReactiveState(0)\<close>, \<open>d = a.derive(thrower)\<close> and
  \<open>e = a.derive(x => x)\<close>.
\<close>

definition st_siblings :: state where
  "st_siblings = \<lparr>currentComputation = None, dependencyGraph = [(1, 0), (2, 0)],
     heap = [Cell (Num 0) [] [1, 2],
             Derived thrower 0 (Num 0) False [],
             Derived (\<lambda>x. Ret x) 0 (Num 0) False []],
     trace = []\<rparr>"

text \<open>\<open>const d = a.derive(x => x === 0 ? 0 : d.value() + 1)\<close>, for the reference \<open>d\<close>.\<close>

definition selfreader :: "ref \<Rightarrow> val \<Rightarrow> prog" where
  "selfreader d x = (if x = Num 0 then Ret (Num 0) else Read d (\<lambda>v. Ret (num_map (\<lambda>i. i + 1) v)))"

text \<open>A cell holding 1 and the dirty derived state 1 that reads itself.\<close>

definition st_cyclic :: state where
  "st_cyclic = \<lparr>currentComputation = None, dependencyGraph = [],
     heap = [Cell (Num 1) [] [1], Derived (selfreader 1) 0 (Num 0) True []],
     trace = []\<rparr>"

text \<open>
  Two cells and the dirty derived state of the first, \<open>x => { c.setValue(5); return x }\<close>,
  which writes the second.
\<close>

definition st_computing :: state where
  "st_computing = \<lparr>currentComputation = None, dependencyGraph = [],
     heap = [Cell (Num 0) [] [], Cell (Num 0) [] [],
             Derived (\<lambda>x. Write 1 (Num 5) (Ret x)) 0 Undefined True []],
     trace = []\<rparr>"

text \<open>
  \<open>+\<close> on numbers; \<open>() => { const r = b.value() + c.value(); log.push(r); return r }\<close>;
  \<open>() => a.setValue(v)\<close>.
\<close>

fun num_add :: "val \<Rightarrow> val \<Rightarrow> val" where
  "num_add (Num i) (Num j) = Num (i + j)"
| "num_add v w = Undefined"

definition diamond_sum :: "ref \<Rightarrow> ref \<Rightarrow> prog" where
  "diamond_sum b c = Read b (\<lambda>bv. Read c (\<lambda>cv. Emit (num_add bv cv) (Ret (num_add bv cv))))"

definition write_thunk :: "ref \<Rightarrow> val \<Rightarrow> prog" where
  "write_thunk a v = Write a v (Ret Undefined)"

section \<open>Basic facts\<close>

lemma lookup_alloc: "lookup (alloc nd st) r = (if r = length (heap st) then Some nd else lookup st r)"
  by (auto simp: lookup_def alloc_def nth_append)

lemma lookup_store: "lookup (store r nd st) q = (if q = r \<and> r < length (heap st) then Some nd else lookup st q)"
  by (auto simp: lookup_def store_def)

lemma lookup_frame [simp]:
  "lookup (st\<lparr>currentComputation := c\<rparr>) r = lookup st r"
  "lookup (st\<lparr>dependencyGraph := g\<rparr>) r = lookup st r"
  "lookup (st\<lparr>trace := t\<rparr>) r = lookup st r"
  "lookup (track q st) r = lookup st r"
  by (simp_all add: lookup_def track_def split: option.splits)

lemma lookup_lt: "lookup st r = Some nd \<Longrightarrow> r < length (heap st)"
  by (simp add: lookup_def split: if_splits)

lemma bnd_simps [simp]:
  "bnd None k = None"
  "bnd (Some (Inl e, st)) k = Some (Inl e, st)"
  "bnd (Some (Inr x, st)) k = k x st"
  "bnd (ret x st) k = k x st"
  "bnd (throw e st) k = throw e st"
  by (simp_all add: bnd_def ret_def throw_def)

lemma try_finally_simps [simp]:
  "try_finally None h = None"
  "try_finally (Some (x, st)) h = Some (x, h st)"
  "try_finally (ret y st) h = ret y (h st)"
  "try_finally (throw e st) h = throw e (h st)"
  by (simp_all add: try_finally_def ret_def throw_def)

lemma ret_eq [simp]: "ret x s = ret y t \<longleftrightarrow> x = y \<and> s = t"
  by (simp add: ret_def)

lemma heap_frame [simp]:
  "heap (st\<lparr>currentComputation := c\<rparr>) = heap st"
  "heap (st\<lparr>dependencyGraph := g\<rparr>) = heap st"
  "heap (st\<lparr>trace := t\<rparr>) = heap st"
  "heap (track q st) = heap st"
  by (simp_all add: track_def split: option.splits)

lemma heap_store_length [simp]: "length (heap (store r nd st)) = length (heap st)"
  by (simp add: store_def)

lemma heap_alloc_length [simp]: "length (heap (alloc nd st)) = Suc (length (heap st))"
  by (simp add: alloc_def)

lemma trace_frame [simp]:
  "trace (store r nd st) = trace st"
  "trace (alloc nd st) = trace st"
  "trace (track r st) = trace st"
  by (simp_all add: store_def alloc_def track_def split: option.splits)

lemma bnd_Some:
  "bnd m k = Some (res, st') \<longleftrightarrow>
     (\<exists>e. m = Some (Inl e, st') \<and> res = Inl e) \<or> (\<exists>x s. m = Some (Inr x, s) \<and> k x s = Some (res, st'))"
  by (auto simp: bnd_def split: option.splits sum.splits prod.splits)

lemma try_finally_Some:
  "try_finally m h = Some (res, st') \<longleftrightarrow> (\<exists>s. m = Some (res, s) \<and> st' = h s)"
  by (auto simp: try_finally_def split: option.splits prod.splits)


subsection \<open>A clean, unregistered derived state is never touched again\<close>

lemma detached_frame [simp]:
  "detached d nd (st\<lparr>currentComputation := c\<rparr>) = detached d nd st"
  "detached d nd (st\<lparr>dependencyGraph := g\<rparr>) = detached d nd st"
  "detached d nd (st\<lparr>trace := t\<rparr>) = detached d nd st"
  "detached d nd (track q st) = detached d nd st"
  by (simp_all add: detached_def unregistered_def)

lemma detached_not_in:
  assumes "detached d nd st" "lookup st r = Some (Cell v subs ds)"
  shows "d \<notin> set ds"
proof -
  from assms(2) have "r < length (heap st)" "heap st ! r = Cell v subs ds"
    by (simp_all add: lookup_def split: if_splits)
  then have "Cell v subs ds \<in> set (heap st)" by (metis nth_mem)
  with assms(1) show ?thesis
    by (auto simp: detached_def unregistered_def list_all_iff)
qed

lemma unregistered_store:
  assumes "unregistered d st" "case nd of Cell _ _ ds \<Rightarrow> d \<notin> set ds | Derived _ _ _ _ _ \<Rightarrow> True"
  shows "unregistered d (store r nd st)"
proof -
  have "set ((heap st)[r := nd]) \<subseteq> insert nd (set (heap st))"
    by (rule set_update_subset_insert)
  with assms show ?thesis
    by (auto simp: unregistered_def store_def list_all_iff)
qed

lemma detached_assign:
  assumes "detached d nd st" shows "detached d nd (assign r v st)"
proof (cases "lookup st r")
  case None then show ?thesis using assms by (simp add: assign_def)
next
  case (Some x)
  show ?thesis
  proof (cases x)
    case (Cell w subs ds)
    with Some assms have "d \<notin> set ds" by (auto dest: detached_not_in)
    moreover from Cell Some assms have "r \<noteq> d" by (auto simp: detached_def)
    ultimately show ?thesis using assms Some Cell
      by (auto simp: assign_def detached_def lookup_store intro!: unregistered_store)
  next
    case Derived then show ?thesis using assms Some by (simp add: assign_def)
  qed
qed

lemma detached_cache:
  assumes "detached d nd st" "r \<noteq> d" shows "detached d nd (cache r y st)"
  using assms
  by (auto simp: cache_def detached_def lookup_store intro!: unregistered_store
      split: option.splits node.splits)

lemma detached_mark_dirty:
  assumes "detached d nd st" "r \<noteq> d" shows "detached d nd (mark_dirty r st)"
  using assms
  by (auto simp: mark_dirty_def detached_def lookup_store intro!: unregistered_store
      split: option.splits node.splits)


lemma detached_preserved:
  "(\<forall>r st res st'. value_f n r st = Some (res, st') \<longrightarrow> detached d nd st \<longrightarrow> detached d nd st')
 \<and> (\<forall>r st res st'. compute_f n r st = Some (res, st') \<longrightarrow> detached d nd st \<longrightarrow> detached d nd st')
 \<and> (\<forall>r a st res st'. setValue_f n r a st = Some (res, st') \<longrightarrow> detached d nd st \<longrightarrow> detached d nd st')
 \<and> (\<forall>r st res st'. update_f n r st = Some (res, st') \<longrightarrow> r \<noteq> d \<longrightarrow> detached d nd st \<longrightarrow> detached d nd st')
 \<and> (\<forall>g cbs st res st'. forEach_f n g cbs st = Some (res, st') \<longrightarrow> detached d nd st \<longrightarrow> detached d nd st')
 \<and> (\<forall>ds st res st'. updateAll_f n ds st = Some (res, st') \<longrightarrow> d \<notin> set ds \<longrightarrow> detached d nd st \<longrightarrow> detached d nd st')
 \<and> (\<forall>p st res st'. run_f n p st = Some (res, st') \<longrightarrow> detached d nd st \<longrightarrow> detached d nd st')"
proof (induction n)
  case 0
  show ?case by (simp add: throw_def)
next
  case (Suc n)
  note IHv = Suc.IH [THEN conjunct1, rule_format]
    and IHc = Suc.IH [THEN conjunct2, THEN conjunct1, rule_format]
    and IHs = Suc.IH [THEN conjunct2, THEN conjunct2, THEN conjunct1, rule_format]
    and IHu = Suc.IH [THEN conjunct2, THEN conjunct2, THEN conjunct2, THEN conjunct1, rule_format]
    and IHf = Suc.IH [THEN conjunct2, THEN conjunct2, THEN conjunct2, THEN conjunct2,
        THEN conjunct1, rule_format]
    and IHa = Suc.IH [THEN conjunct2, THEN conjunct2, THEN conjunct2, THEN conjunct2,
        THEN conjunct2, THEN conjunct1, rule_format]
    and IHr = Suc.IH [THEN conjunct2, THEN conjunct2, THEN conjunct2, THEN conjunct2,
        THEN conjunct2, THEN conjunct2, rule_format]
  have v: "detached d nd st'" if "value_f (Suc n) r st = Some (res, st')" "detached d nd st" for r st res st'
    using that IHc
    by (auto simp: ret_def throw_def split: option.splits node.splits)
  have c: "detached d nd st'" if h: "compute_f (Suc n) r st = Some (res, st')" and dt: "detached d nd st" for r st res st'
  proof (cases "r = d")
    case True
    with h dt show ?thesis
      by (auto simp: detached_def ret_def throw_def split: node.splits)
  next
    case False
    have IHv': "detached d nd s" if "value_f n q (st\<lparr>currentComputation := c\<rparr>) = Some (y, s)" for q c y s
      using IHv [OF that] dt by simp
    from h dt False show ?thesis
      by (auto simp: ret_def throw_def try_finally_Some bnd_Some
          split: option.splits node.splits if_splits dest!: IHv' dest: IHr intro!: detached_cache)
  qed
  have s: "detached d nd st'" if h: "setValue_f (Suc n) r a st = Some (res, st')" and dt: "detached d nd st" for r a st res st'
  proof (cases "lookup st r")
    case None with h dt show ?thesis by (simp add: throw_def)
  next
    case (Some x)
    show ?thesis
    proof (cases x)
      case (Derived f dep v dirty subs)
      with Some h dt show ?thesis by (simp add: throw_def)
    next
      case (Cell v subs ds)
      from dt Some Cell have nin: "d \<notin> set ds" by (auto dest: detached_not_in)
      have res: "detached d nd s1" if "(case a of Val x \<Rightarrow> ret x st | Upd g \<Rightarrow> run_f n (g v) st) = Some (y, s1)" for y s1
        using that dt by (auto simp: ret_def split: setter.splits dest: IHr)
      from h Some Cell show ?thesis
        by (auto simp: bnd_Some ret_def split: if_splits
            dest!: res dest: IHf [OF _ detached_assign] IHa [OF _ nin])
    qed
  qed
  have u: "detached d nd st'" if h: "update_f (Suc n) r st = Some (res, st')" and ne: "r \<noteq> d" and dt: "detached d nd st" for r st res st'
    using h ne dt
    by (auto simp: bnd_Some ret_def split: option.splits node.splits if_splits
        dest: IHc [OF _ detached_mark_dirty] IHf)
  have f: "detached d nd st'" if h: "forEach_f (Suc n) g cbs st = Some (res, st')" and dt: "detached d nd st" for g cbs st res st'
    using h dt by (cases cbs) (auto simp: bnd_Some ret_def dest: IHr IHf)
  have a: "detached d nd st'" if h: "updateAll_f (Suc n) ds st = Some (res, st')" and nin: "d \<notin> set ds" and dt: "detached d nd st" for ds st res st'
    using h nin dt by (cases ds) (auto simp: bnd_Some ret_def dest: IHu IHa)
  have r: "detached d nd st'" if h: "run_f (Suc n) p st = Some (res, st')" and dt: "detached d nd st" for p st res st'
    using h dt by (cases p) (auto simp: bnd_Some ret_def throw_def dest: IHv IHs IHr)
  from v c s u f a r show ?case by blast
qed



section \<open>Straight line callbacks\<close>

text \<open>
  The steps of the engine for a derived state whose function returns after emitting
  \<open>ts\<close>, without calling back into the engine.
\<close>

lemma fuel_Suc:
  "n + 2 = Suc (Suc n)"
  "n + 3 = Suc (Suc (Suc n))"
  "n + 4 = Suc (Suc (Suc (Suc n)))"
  "n + 5 = Suc (Suc (Suc (Suc (Suc n))))"
  "n + 6 = Suc (Suc (Suc (Suc (Suc (Suc n)))))"
  by simp_all

lemma value_cell:
  "lookup st r = Some (Cell v subs ds) \<Longrightarrow> value_f (Suc n) r st = ret v (track r st)"
  by simp

lemma value_clean:
  "lookup st r = Some (Derived f dep v False subs) \<Longrightarrow> value_f (Suc (Suc n)) r st = ret v st"
  by simp

lemma compute_straight:
  assumes "lookup st r = Some (Derived f dep w True subs)"
      and "lookup st dep = Some (Cell v csubs cds)"
      and "\<And>s. run_f (Suc (Suc n)) (f v) s = ret y (s\<lparr>trace := trace s @ ts\<rparr>)"
  shows "compute_f (Suc (Suc (Suc n))) r st =
     ret y (store r (Derived f dep y False subs)
        (st\<lparr>dependencyGraph := dependencyGraph st @ [(r, dep)], trace := trace st @ ts\<rparr>))"
  using assms(1,2)
  by (simp add: assms(3) track_def cache_def store_def del: run_f.simps)

lemma update_straight:
  assumes "lookup st r = Some (Derived f dep w dirty [])"
      and "lookup st dep = Some (Cell v csubs cds)"
      and "\<And>s. run_f (Suc (Suc n)) (f v) s = ret y (s\<lparr>trace := trace s @ ts\<rparr>)"
  shows "update_f (Suc (Suc (Suc (Suc n)))) r st =
     ret Undefined (store r (Derived f dep y False [])
        (st\<lparr>dependencyGraph := dependencyGraph st @ [(r, dep)], trace := trace st @ ts\<rparr>))"
proof -
  let ?s = "mark_dirty r st"
  from assms(1) have lt: "r < length (heap st)" by (rule lookup_lt)
  from assms(1) lt have m: "lookup ?s r = Some (Derived f dep w True [])"
    by (simp add: mark_dirty_def lookup_store)
  from assms(1,2) lt have m2: "lookup ?s dep = Some (Cell v csubs cds)"
    by (auto simp add: mark_dirty_def lookup_store)
  have eq: "store r nd (?s\<lparr>dependencyGraph := g, trace := t\<rparr>) = store r nd (st\<lparr>dependencyGraph := g, trace := t\<rparr>)" for nd g t
    using assms(1) by (simp add: mark_dirty_def store_def)
  have deps: "dependencyGraph ?s = dependencyGraph st" "trace ?s = trace st"
    using assms(1) by (simp_all add: mark_dirty_def store_def)
  show ?thesis
    using assms(1) lt
    by (simp add: compute_straight [OF m m2 assms(3)] eq deps subscribers_of_def lookup_store
        del: compute_f.simps)
qed


lemma createDerivedState_straight:
  assumes "lookup st a = Some (Cell v subs ds)"
      and "\<And>s. run_f (Suc (Suc n)) (f v) s = ret y (s\<lparr>trace := trace s @ ts\<rparr>)"
  shows "\<exists>st'. createDerivedState_f (Suc (Suc (Suc n))) f a st = ret (length (heap st)) st'
      \<and> lookup st' (length (heap st)) = Some (Derived f a y False [])
      \<and> (\<forall>r. r \<noteq> length (heap st) \<longrightarrow> lookup st' r = lookup st r)
      \<and> trace st' = trace st @ ts \<and> length (heap st') = Suc (length (heap st))"
proof -
  let ?d = "length (heap st)"
  let ?s0 = "alloc (Derived f a Undefined True []) st"
  from assms(1) have lt: "a < ?d" by (rule lookup_lt)
  have l0: "lookup ?s0 ?d = Some (Derived f a Undefined True [])"
    by (simp add: lookup_alloc)
  from lt assms(1) have l1: "lookup ?s0 a = Some (Cell v subs ds)"
    by (simp add: lookup_alloc)
  show ?thesis
    using lt assms(1)
    by (simp add: createDerivedState_f_def compute_straight [OF l0 l1 assms(2)] Let_def
        lookup_store lookup_alloc del: compute_f.simps)
qed

lemma derive_cell_straight:
  assumes "lookup st a = Some (Cell v subs ds)"
      and "\<And>s. run_f (Suc (Suc n)) (f v) s = ret y (s\<lparr>trace := trace s @ ts\<rparr>)"
  shows "\<exists>st'. derive_f (Suc (Suc (Suc n))) a f st = ret (length (heap st)) st'
      \<and> lookup st' a = Some (Cell v subs (set_add (length (heap st)) ds))
      \<and> lookup st' (length (heap st)) = Some (Derived f a y False [])
      \<and> (\<forall>r. r \<noteq> a \<longrightarrow> r \<noteq> length (heap st) \<longrightarrow> lookup st' r = lookup st r)
      \<and> trace st' = trace st @ ts \<and> length (heap st') = Suc (length (heap st))"
proof -
  let ?d = "length (heap st)"
  let ?s0 = "alloc (Derived f a Undefined True []) st"
  from assms(1) have lt: "a < ?d" by (rule lookup_lt)
  have l0: "lookup ?s0 ?d = Some (Derived f a Undefined True [])"
    by (simp add: lookup_alloc)
  from lt assms(1) have l1: "lookup ?s0 a = Some (Cell v subs ds)"
    by (simp add: lookup_alloc)
  show ?thesis
    using lt assms(1)
    by (simp add: derive_f_def createDerivedState_f_def compute_straight [OF l0 l1 assms(2)] Let_def
        lookup_store lookup_alloc del: compute_f.simps)
qed

lemma derive_derived_pure:
  assumes "lookup st r = Some (Derived h dep w False subs)"
  shows "\<exists>st'. derive_f (Suc (Suc (Suc (Suc n)))) r (\<lambda>x. Ret (g x)) st = ret (length (heap st)) st'
      \<and> lookup st' (length (heap st)) = Some (Derived (\<lambda>x. Ret (g x)) r (g w) False [])
      \<and> (\<forall>q. q \<noteq> length (heap st) \<longrightarrow> lookup st' q = lookup st q)
      \<and> trace st' = trace st \<and> length (heap st') = Suc (length (heap st))"
proof -
  from assms have lt: "r < length (heap st)" by (rule lookup_lt)
  show ?thesis
    using lt assms
    by (simp add: derive_f_def createDerivedState_f_def Let_def lookup_store lookup_alloc cache_def)
qed

lemma setValue_one:
  assumes "lookup st a = Some (Cell v [] [b])"
      and "lookup st b = Some (Derived f a w dirty [])"
      and "x \<noteq> v"
      and "\<And>s. run_f (Suc (Suc n)) (f x) s = ret y (s\<lparr>trace := trace s @ ts\<rparr>)"
  shows "\<exists>st'. setValue_f (Suc (Suc (Suc (Suc (Suc (Suc n)))))) a (Val x) st = ret Undefined st'
      \<and> lookup st' a = Some (Cell x [] [b])
      \<and> lookup st' b = Some (Derived f a y False [])
      \<and> (\<forall>r. r \<noteq> a \<longrightarrow> r \<noteq> b \<longrightarrow> lookup st' r = lookup st r)
      \<and> trace st' = trace st @ ts"
proof -
  let ?s = "assign a x st"
  from assms(1) have lta: "a < length (heap st)" by (rule lookup_lt)
  from assms(2) have ltb: "b < length (heap st)" by (rule lookup_lt)
  from assms(1,2) have ne: "a \<noteq> b" by auto
  from assms(1) lta have la: "lookup ?s a = Some (Cell x [] [b])"
    by (simp add: assign_def lookup_store)
  from assms(1,2) ne have lb: "lookup ?s b = Some (Derived f a w dirty [])"
    by (simp add: assign_def lookup_store)
  have others: "lookup ?s r = lookup st r" if "r \<noteq> a" for r
    using that assms(1) by (simp add: assign_def lookup_store)
  have tr: "trace ?s = trace st" "length (heap ?s) = length (heap st)"
    using assms(1) by (simp_all add: assign_def)
  show ?thesis
    using assms(1,3) ne la lb ltb lta others tr
    by (simp add: currentValue_of_def subscribers_of_def update_straight [OF lb la assms(4)]
        lookup_store del: update_f.simps)
qed


section \<open>More budget changes no result\<close>

text \<open>
  A call that ends with some budget, otherwise than by \<open>RangeError\<close>, ends in the same
  way with more: its result is the one it has with any budget that is enough. The
  scenarios below are evaluated with budget 10 and stated for any budget from there on.
\<close>

lemma bnd_mono:
  assumes "bnd m k = Some z" and "fst z \<noteq> Inl RangeError"
      and "\<And>y. m = Some y \<Longrightarrow> fst y \<noteq> Inl RangeError \<Longrightarrow> m' = Some y"
      and "\<And>x s. k x s = Some z \<Longrightarrow> k' x s = Some z"
  shows "bnd m' k' = Some z"
proof (cases m)
  case None
  with assms(1) show ?thesis by (simp add: bnd_def)
next
  case (Some y)
  obtain r s where y: "y = (r, s)" by (cases y)
  show ?thesis
  proof (cases r)
    case (Inl e)
    with Some y assms(1) have z: "z = (Inl e, s)" by (simp add: bnd_def)
    with assms(2) Some y Inl assms(3) [of y] have "m' = Some (Inl e, s)" by simp
    with z show ?thesis by (simp add: bnd_def)
  next
    case (Inr x)
    with Some y assms(1) have "k x s = Some z" by (simp add: bnd_def)
    moreover from Some y Inr assms(3) [of y] have "m' = Some (Inr x, s)" by simp
    ultimately show ?thesis using assms(4) by (simp add: bnd_def)
  qed
qed

lemma try_finally_mono:
  assumes "try_finally m h = Some z" and "fst z \<noteq> Inl RangeError"
      and "\<And>y. m = Some y \<Longrightarrow> fst y \<noteq> Inl RangeError \<Longrightarrow> m' = Some y"
  shows "try_finally m' h = Some z"
proof (cases m)
  case None
  with assms(1) show ?thesis by (simp add: try_finally_def)
next
  case (Some y)
  with assms(1,2) have "fst y \<noteq> Inl RangeError"
    by (auto simp: try_finally_def split: prod.splits)
  with Some assms(3) have "m' = m" by simp
  with assms(1) show ?thesis by simp
qed

lemma fuel_mono:
  "(\<forall>r st z. value_f n r st = Some z \<longrightarrow> fst z \<noteq> Inl RangeError \<longrightarrow> value_f (Suc n) r st = Some z)
 \<and> (\<forall>r st z. compute_f n r st = Some z \<longrightarrow> fst z \<noteq> Inl RangeError \<longrightarrow> compute_f (Suc n) r st = Some z)
 \<and> (\<forall>r a st z. setValue_f n r a st = Some z \<longrightarrow> fst z \<noteq> Inl RangeError \<longrightarrow> setValue_f (Suc n) r a st = Some z)
 \<and> (\<forall>r st z. update_f n r st = Some z \<longrightarrow> fst z \<noteq> Inl RangeError \<longrightarrow> update_f (Suc n) r st = Some z)
 \<and> (\<forall>g cbs st z. forEach_f n g cbs st = Some z \<longrightarrow> fst z \<noteq> Inl RangeError \<longrightarrow> forEach_f (Suc n) g cbs st = Some z)
 \<and> (\<forall>ds st z. updateAll_f n ds st = Some z \<longrightarrow> fst z \<noteq> Inl RangeError \<longrightarrow> updateAll_f (Suc n) ds st = Some z)
 \<and> (\<forall>p st z. run_f n p st = Some z \<longrightarrow> fst z \<noteq> Inl RangeError \<longrightarrow> run_f (Suc n) p st = Some z)"
proof (induction n)
  case 0
  show ?case by (auto simp: throw_def)
next
  case (Suc n)
  note IHv = Suc.IH [THEN conjunct1, rule_format]
    and IHc = Suc.IH [THEN conjunct2, THEN conjunct1, rule_format]
    and IHs = Suc.IH [THEN conjunct2, THEN conjunct2, THEN conjunct1, rule_format]
    and IHu = Suc.IH [THEN conjunct2, THEN conjunct2, THEN conjunct2, THEN conjunct1, rule_format]
    and IHf = Suc.IH [THEN conjunct2, THEN conjunct2, THEN conjunct2, THEN conjunct2,
        THEN conjunct1, rule_format]
    and IHa = Suc.IH [THEN conjunct2, THEN conjunct2, THEN conjunct2, THEN conjunct2,
        THEN conjunct2, THEN conjunct1, rule_format]
    and IHr = Suc.IH [THEN conjunct2, THEN conjunct2, THEN conjunct2, THEN conjunct2,
        THEN conjunct2, THEN conjunct2, rule_format]
  note [simp del] = value_f.simps compute_f.simps setValue_f.simps update_f.simps
    forEach_f.simps updateAll_f.simps run_f.simps
  have v: "value_f (Suc (Suc n)) r st = Some z"
    if "value_f (Suc n) r st = Some z" "fst z \<noteq> Inl RangeError" for r st z
    using that by (auto simp: value_f.simps split: option.splits node.splits intro: IHc)
  have c: "compute_f (Suc (Suc n)) r st = Some z"
    if "compute_f (Suc n) r st = Some z" "fst z \<noteq> Inl RangeError" for r st z
    using that
    by (auto simp: compute_f.simps split: option.splits node.splits
        elim!: try_finally_mono bnd_mono intro: IHv IHr)
  have s: "setValue_f (Suc (Suc n)) r a st = Some z"
    if "setValue_f (Suc n) r a st = Some z" "fst z \<noteq> Inl RangeError" for r a st z
    using that
    by (auto simp: setValue_f.simps split: option.splits node.splits setter.splits if_splits
        elim!: bnd_mono intro: IHr IHf IHa)
  have u: "update_f (Suc (Suc n)) r st = Some z"
    if "update_f (Suc n) r st = Some z" "fst z \<noteq> Inl RangeError" for r st z
    using that
    by (auto simp: update_f.simps split: option.splits node.splits if_splits
        elim!: bnd_mono intro: IHc IHf)
  have f: "forEach_f (Suc (Suc n)) g cbs st = Some z"
    if "forEach_f (Suc n) g cbs st = Some z" "fst z \<noteq> Inl RangeError" for g cbs st z
    using that by (cases cbs) (auto simp: forEach_f.simps elim!: bnd_mono intro: IHr IHf)
  have a: "updateAll_f (Suc (Suc n)) ds st = Some z"
    if "updateAll_f (Suc n) ds st = Some z" "fst z \<noteq> Inl RangeError" for ds st z
    using that by (cases ds) (auto simp: updateAll_f.simps elim!: bnd_mono intro: IHu IHa)
  have r: "run_f (Suc (Suc n)) p st = Some z"
    if "run_f (Suc n) p st = Some z" "fst z \<noteq> Inl RangeError" for p st z
    using that by (cases p) (auto simp: run_f.simps elim!: bnd_mono intro: IHv IHs IHr)
  from v c s u f a r show ?case by blast
qed

lemma value_f_mono:
  assumes "value_f n r st = Some z" and "fst z \<noteq> Inl RangeError" and "n \<le> m"
  shows "value_f m r st = Some z"
  using assms(3,1,2)
  by (induction rule: dec_induct) (auto dest: fuel_mono [THEN conjunct1, rule_format])

lemma compute_f_mono:
  assumes "compute_f n r st = Some z" and "fst z \<noteq> Inl RangeError" and "n \<le> m"
  shows "compute_f m r st = Some z"
  using assms(3,1,2)
  by (induction rule: dec_induct)
    (auto dest: fuel_mono [THEN conjunct2, THEN conjunct1, rule_format])

lemma setValue_f_mono:
  assumes "setValue_f n r a st = Some z" and "fst z \<noteq> Inl RangeError" and "n \<le> m"
  shows "setValue_f m r a st = Some z"
  using assms(3,1,2)
  by (induction rule: dec_induct)
    (auto dest: fuel_mono [THEN conjunct2, THEN conjunct2, THEN conjunct1, rule_format])

lemma run_f_mono:
  assumes "run_f n p st = Some z" and "fst z \<noteq> Inl RangeError" and "n \<le> m"
  shows "run_f m p st = Some z"
  using assms(3,1,2)
  by (induction rule: dec_induct)
    (auto dest: fuel_mono [THEN conjunct2, THEN conjunct2, THEN conjunct2, THEN conjunct2,
        THEN conjunct2, THEN conjunct2, rule_format])

lemma createDerivedState_f_mono:
  assumes "createDerivedState_f n f dep st = Some z" and "fst z \<noteq> Inl RangeError" and "n \<le> m"
  shows "createDerivedState_f m f dep st = Some z"
  using assms
  by (auto simp: createDerivedState_f_def Let_def elim!: bnd_mono intro: compute_f_mono)

lemma derive_f_mono:
  assumes "derive_f n r f st = Some z" and "fst z \<noteq> Inl RangeError" and "n \<le> m"
  shows "derive_f m r f st = Some z"
  using assms
  by (auto simp: derive_f_def split: option.splits node.splits
      elim!: bnd_mono intro: createDerivedState_f_mono)

lemma createComputed_f_mono:
  assumes "createComputed_f n p st = Some z" and "fst z \<noteq> Inl RangeError" and "n \<le> m"
  shows "createComputed_f m p st = Some z"
  using assms
  by (auto simp: createComputed_f_def elim!: bnd_mono intro: derive_f_mono)

lemma createReactiveEffect_f_mono:
  assumes "createReactiveEffect_f n p st = Some z" and "fst z \<noteq> Inl RangeError" and "n \<le> m"
  shows "createReactiveEffect_f m p st = Some z"
  using assms
  by (auto simp: createReactiveEffect_f_def elim!: bnd_mono intro: run_f_mono)

lemma batch_f_mono:
  assumes "batch_f n us st = Some z" and "fst z \<noteq> Inl RangeError" and "n \<le> m"
  shows "batch_f m us st = Some z"
  using assms
  by (induction us arbitrary: st) (auto elim!: bnd_mono intro: run_f_mono)

lemmas fuel_monos = value_f_mono setValue_f_mono derive_f_mono createComputed_f_mono
  createReactiveEffect_f_mono batch_f_mono

lemma map_option_mono:
  assumes "map_option g m = Some x" and "\<And>z. m = Some z \<Longrightarrow> g z = x \<Longrightarrow> m' = Some z"
  shows "map_option g m' = Some x"
  using assms by (cases m) auto

text \<open>
  The same for a call whose error the caller catches, when what the caller does next
  shows that the error caught was not \<open>RangeError\<close>.
\<close>

lemma attempt_bnd_mono:
  assumes "bnd (attempt m) k = Some z" and "fst z \<noteq> Inl RangeError"
      and "\<And>r s. m = Some (r, s) \<Longrightarrow> k r s = Some z \<Longrightarrow> r \<noteq> Inl RangeError"
      and "\<And>y. m = Some y \<Longrightarrow> fst y \<noteq> Inl RangeError \<Longrightarrow> m' = Some y"
      and "\<And>x s. k x s = Some z \<Longrightarrow> k' x s = Some z"
  shows "bnd (attempt m') k' = Some z"
proof (cases m)
  case None
  with assms(1) show ?thesis by (simp add: attempt_def bnd_def)
next
  case (Some y)
  obtain r s where y: "y = (r, s)" by (cases y)
  with Some assms(1) have k: "k r s = Some z" by (simp add: attempt_def bnd_def)
  with Some y assms(3) have "r \<noteq> Inl RangeError" by simp
  with Some y assms(4) [of y] have "m' = Some (r, s)" by simp
  with k assms(5) show ?thesis by (simp add: attempt_def bnd_def)
qed

section \<open>The claims\<close>

subsection \<open>C9: a write of an equal value is a no-op\<close>

text \<open>
  C9. For every cell, \<open>setValue\<close> with a value equal to the current one (the source
  compares with \<open>!==\<close>) is a no-op: the state after is the state before, so the stored
  value is unchanged, no subscriber is called (nothing is emitted, and a budget of one call
  is enough whatever the subscribers are) and no derived state is updated. The same
  holds for an updater function that returns the current value.
\<close>

theorem setValue_equal_noop:
  assumes "lookup st r = Some (Cell v subs ds)"
  shows "setValue_f (Suc n) r (Val v) st = ret Undefined st
       \<and> (g v = v \<longrightarrow> setValue_f (Suc (Suc n)) r (Upd (\<lambda>prev. Ret (g prev))) st = ret Undefined st)"
  using assms by (simp add: currentValue_of_def)

theorem setValue_equal_noop_witness:
  "lookup st_logged 0 = Some (Cell (Num 5) [(0, logger)] [])
   \<and> setValue_f (Suc 0) 0 (Val (Num 5)) st_logged = ret Undefined st_logged
   \<and> setValue_f (Suc (Suc 0)) 0 (Upd (\<lambda>prev. Ret (num_map (\<lambda>i. i * 1) prev))) st_logged
       = ret Undefined st_logged"
proof -
  have h: "lookup st_logged 0 = Some (Cell (Num 5) [(0, logger)] [])"
    by (simp add: st_logged_def lookup_def)
  from setValue_equal_noop [OF h, of 0 "num_map (\<lambda>i. i * 1)"] h show ?thesis
    by simp
qed

subsection \<open>C1: a derived state follows its cell\<close>

text \<open>
  C1. For a cell \<open>a = createReactiveState(v0)\<close>, made in any state of the engine, and
  \<open>b = a.derive(f)\<close> for a function \<open>f\<close> that only computes, \<open>b.value()\<close> is \<open>f v0\<close>;
  after \<open>a.setValue(v1)\<close>, \<open>a.value()\<close> is \<open>v1\<close>, the argument of the write, and
  \<open>b.value()\<close> is \<open>f v1\<close>. The witness is the instance of the claim: 2, doubling, 3
  give 4, 3 and 6.
\<close>

theorem basic_propagation:
  "map_option fst
    (bnd (createReactiveState v0 st) (\<lambda>a st1.
     bnd (derive_f (n + 6) a (\<lambda>x. Ret (f x)) st1) (\<lambda>b st2.
     bnd (value_f (n + 6) b st2) (\<lambda>x st3.
     bnd (setValue_f (n + 6) a (Val v1) st3) (\<lambda>_ st4.
     bnd (value_f (n + 6) a st4) (\<lambda>y st5.
     bnd (value_f (n + 6) b st5) (\<lambda>z st6.
     ret (x, y, z) st6)))))))
   = Some (Inr (f v0, v1, f v1))"
proof -
  let ?a = "length (heap st)"
  let ?b = "Suc ?a"
  let ?F = "\<lambda>x. Ret (f x)"
  define s1 where "s1 = alloc (Cell v0 [] []) st"
  have c: "createReactiveState v0 st = ret ?a s1"
    by (simp add: createReactiveState_def s1_def)
  have l1: "lookup s1 ?a = Some (Cell v0 [] [])" and len1: "length (heap s1) = ?b"
    by (simp_all add: s1_def lookup_alloc)
  have "\<exists>s2. derive_f (n + 6) ?a ?F s1 = ret ?b s2
      \<and> lookup s2 ?a = Some (Cell v0 [] [?b])
      \<and> lookup s2 ?b = Some (Derived ?F ?a (f v0) False [])"
    unfolding fuel_Suc
    using derive_cell_straight [OF l1, where f = ?F and y = "f v0" and ts = "[]"
        and n = "Suc (Suc (Suc n))"]
    by (auto simp: len1 set_add_def)
  then obtain s2 where d: "derive_f (n + 6) ?a ?F s1 = ret ?b s2"
    and l2a: "lookup s2 ?a = Some (Cell v0 [] [?b])"
    and l2b: "lookup s2 ?b = Some (Derived ?F ?a (f v0) False [])"
    by blast
  have r1: "value_f (n + 6) ?b s2 = ret (f v0) s2"
    unfolding fuel_Suc by (rule value_clean [OF l2b])
  have "\<exists>s4. setValue_f (n + 6) ?a (Val v1) s2 = ret Undefined s4
      \<and> lookup s4 ?a = Some (Cell v1 [] [?b])
      \<and> lookup s4 ?b = Some (Derived ?F ?a (f v1) False [])"
  proof (cases "v1 = v0")
    case True
    with l2a l2b show ?thesis by (simp add: fuel_Suc currentValue_of_def)
  next
    case False
    show ?thesis
      unfolding fuel_Suc
      using setValue_one [OF l2a l2b False, where y = "f v1" and ts = "[]" and n = n]
      by auto
  qed
  then obtain s4 where w: "setValue_f (n + 6) ?a (Val v1) s2 = ret Undefined s4"
    and l4a: "lookup s4 ?a = Some (Cell v1 [] [?b])"
    and l4b: "lookup s4 ?b = Some (Derived ?F ?a (f v1) False [])"
    by blast
  have r2: "value_f (n + 6) ?a s4 = ret v1 (track ?a s4)"
    unfolding fuel_Suc by (rule value_cell [OF l4a])
  from l4b have "lookup (track ?a s4) ?b = Some (Derived ?F ?a (f v1) False [])"
    by simp
  then have r3: "value_f (n + 6) ?b (track ?a s4) = ret (f v1) (track ?a s4)"
    unfolding fuel_Suc by (rule value_clean)
  show ?thesis
    by (simp only: c d r1 w r2 r3 bnd_simps) (simp add: ret_def)
qed


theorem basic_propagation_witness:
  "map_option fst
    (bnd (createReactiveState (Num 2) init) (\<lambda>a st1.
     bnd (derive_f 6 a (\<lambda>x. Ret (num_map (\<lambda>i. i * 2) x)) st1) (\<lambda>b st2.
     bnd (value_f 6 b st2) (\<lambda>x st3.
     bnd (setValue_f 6 a (Val (Num 3)) st3) (\<lambda>_ st4.
     bnd (value_f 6 a st4) (\<lambda>y st5.
     bnd (value_f 6 b st5) (\<lambda>z st6.
     ret (x, y, z) st6)))))))
   = Some (Inr (Num 4, Num 3, Num 6))"
  using basic_propagation [of "Num 2" init 0 "num_map (\<lambda>i. i * 2)" "Num 3"]
  by simp

subsection \<open>C10: the derived state of a derived state is never updated\<close>

lemma unregistered_iff:
  "unregistered d st \<longleftrightarrow> (\<forall>r v subs ds. lookup st r = Some (Cell v subs ds) \<longrightarrow> d \<notin> set ds)"
proof
  assume u: "unregistered d st"
  show "\<forall>r v subs ds. lookup st r = Some (Cell v subs ds) \<longrightarrow> d \<notin> set ds"
  proof (intro allI impI)
    fix r v subs ds
    assume "lookup st r = Some (Cell v subs ds)"
    then have "Cell v subs ds \<in> set (heap st)"
      by (auto simp: lookup_def in_set_conv_nth split: if_splits)
    with u show "d \<notin> set ds"
      by (auto simp: unregistered_def list_all_iff)
  qed
next
  assume h: "\<forall>r v subs ds. lookup st r = Some (Cell v subs ds) \<longrightarrow> d \<notin> set ds"
  show "unregistered d st"
    unfolding unregistered_def list_all_iff
  proof
    fix nd assume "nd \<in> set (heap st)"
    then obtain r where "r < length (heap st)" "heap st ! r = nd"
      by (auto simp: in_set_conv_nth)
    then have "lookup st r = Some nd" by (simp add: lookup_def)
    with h show "case nd of Cell _ _ ds \<Rightarrow> d \<notin> set ds | Derived _ _ _ _ _ \<Rightarrow> True"
      by (cases nd) auto
  qed
qed

lemma wf_heap_cell:
  assumes "wf_heap st" "lookup st r = Some (Cell v subs ds)" "d \<in> set ds"
  shows "d < length (heap st)"
proof -
  from assms(2) have "Cell v subs ds \<in> set (heap st)"
    by (auto simp: lookup_def in_set_conv_nth split: if_splits)
  with assms(1,3) show ?thesis
    by (auto simp: wf_heap_def list_all_iff)
qed

lemma detached_value:
  assumes "detached d (Derived f dep v dirty subs) st"
  shows "value_f (Suc (Suc n)) d st = ret v st"
  using assms by (auto simp: detached_def)

lemma detached_setValue:
  "setValue_f n r a st = Some (res, st') \<Longrightarrow> detached d nd st \<Longrightarrow> detached d nd st'"
  by (rule detached_preserved [THEN conjunct2, THEN conjunct2, THEN conjunct1, rule_format])

lemma detached_read:
  "value_f n r st = Some (res, st') \<Longrightarrow> detached d nd st \<Longrightarrow> detached d nd st'"
  by (rule detached_preserved [THEN conjunct1, rule_format])

text \<open>
  C10. For every cell \<open>a\<close> (of a state whose \<open>derivedStates\<close> sets hold allocated
  references only) and \<open>d1 = a.derive(f)\<close>, \<open>d2 = d1.derive(g)\<close>, for functions that only
  compute: \<open>d2.value()\<close> is \<open>g (f v0)\<close>, and it still is after any \<open>setValue\<close> on any
  state, whatever it writes and however it ends: \<open>derive\<close> of a derived state registers \<open>d2\<close>
  nowhere, and \<open>update\<close> only calls \<open>subscribe\<close> callbacks. When \<open>a\<close> has no subscriber
  and no other derived state, \<open>a.setValue(v1)\<close> with a new value does return and
  \<open>d1.value()\<close> is then \<open>f v1\<close>, while \<open>d2.value()\<close> is \<open>g (f v0)\<close>.
\<close>

theorem second_level_stale:
  assumes cell: "lookup st a = Some (Cell v0 subs ds)" and wf: "wf_heap st"
  shows "\<exists>d1 d2 st2.
      bnd (derive_f (n + 4) a (\<lambda>x. Ret (f x)) st) (\<lambda>d1 st1.
      bnd (derive_f (n + 4) d1 (\<lambda>x. Ret (g x)) st1) (\<lambda>d2 st2.
      ret (d1, d2) st2)) = ret (d1, d2) st2
    \<and> value_f (n + 4) d2 st2 = ret (g (f v0)) st2
    \<and> (\<forall>m r w res st3. setValue_f m r w st2 = Some (res, st3)
          \<longrightarrow> value_f (n + 4) d2 st3 = ret (g (f v0)) st3)
    \<and> (subs = [] \<and> ds = [] \<and> v1 \<noteq> v0
          \<longrightarrow> (\<exists>st3. setValue_f (n + 6) a (Val v1) st2 = ret Undefined st3
                \<and> value_f (n + 4) d1 st3 = ret (f v1) st3))"
proof -
  let ?d1 = "length (heap st)"
  let ?d2 = "Suc ?d1"
  let ?F = "\<lambda>x. Ret (f x)"
  let ?G = "\<lambda>x. Ret (g x)"
  let ?nd = "Derived ?G ?d1 (g (f v0)) False []"
  have "\<exists>s1. derive_f (n + 4) a ?F st = ret ?d1 s1
      \<and> lookup s1 a = Some (Cell v0 subs (set_add ?d1 ds))
      \<and> lookup s1 ?d1 = Some (Derived ?F a (f v0) False [])
      \<and> (\<forall>r. r \<noteq> a \<longrightarrow> r \<noteq> ?d1 \<longrightarrow> lookup s1 r = lookup st r)
      \<and> length (heap s1) = ?d2"
    unfolding fuel_Suc
    using derive_cell_straight [OF cell, where f = ?F and y = "f v0" and ts = "[]" and n = "Suc n"]
    by auto
  then obtain s1 where d1: "derive_f (n + 4) a ?F st = ret ?d1 s1"
    and l1a: "lookup s1 a = Some (Cell v0 subs (set_add ?d1 ds))"
    and l1d: "lookup s1 ?d1 = Some (Derived ?F a (f v0) False [])"
    and l1o: "\<And>r. r \<noteq> a \<Longrightarrow> r \<noteq> ?d1 \<Longrightarrow> lookup s1 r = lookup st r"
    and len1: "length (heap s1) = ?d2"
    by blast
  have "\<exists>s2. derive_f (n + 4) ?d1 ?G s1 = ret ?d2 s2
      \<and> lookup s2 ?d2 = Some ?nd
      \<and> (\<forall>q. q \<noteq> ?d2 \<longrightarrow> lookup s2 q = lookup s1 q)"
    unfolding fuel_Suc
    using derive_derived_pure [OF l1d, of n g] by (auto simp: len1)
  then obtain s2 where d2: "derive_f (n + 4) ?d1 ?G s1 = ret ?d2 s2"
    and l2d: "lookup s2 ?d2 = Some ?nd"
    and l2o: "\<And>q. q \<noteq> ?d2 \<Longrightarrow> lookup s2 q = lookup s1 q"
    by blast
  have unreg: "unregistered ?d2 s2"
    unfolding unregistered_iff
  proof (intro allI impI)
    fix r v subs' ds'
    assume c: "lookup s2 r = Some (Cell v subs' ds')"
    with l2d have ne2: "r \<noteq> ?d2" by auto
    with c l2o have c1: "lookup s1 r = Some (Cell v subs' ds')" by simp
    with l1d have ne1: "r \<noteq> ?d1" by auto
    show "?d2 \<notin> set ds'"
    proof (cases "r = a")
      case True
      with c1 l1a have "ds' = set_add ?d1 ds" by simp
      moreover have "?d2 \<notin> set ds" using wf_heap_cell [OF wf cell, of ?d2] by auto
      ultimately show ?thesis by (auto simp: set_add_def)
    next
      case False
      with c1 ne1 l1o have "lookup st r = Some (Cell v subs' ds')" by simp
      from wf_heap_cell [OF wf this, of ?d2] show ?thesis by auto
    qed
  qed
  with l2d have det: "detached ?d2 ?nd s2" by (simp add: detached_def)
  have keep: "value_f (n + 4) ?d2 st3 = ret (g (f v0)) st3"
    if "setValue_f m r w s2 = Some (res, st3)" for m r w res st3
  proof -
    from that det have "detached ?d2 ?nd st3" by (rule detached_setValue)
    then show ?thesis unfolding fuel_Suc by (rule detached_value)
  qed
  have now: "value_f (n + 4) ?d2 s2 = ret (g (f v0)) s2"
    unfolding fuel_Suc using det by (rule detached_value)
  have chain: "bnd (derive_f (n + 4) a ?F st) (\<lambda>d1 st1.
      bnd (derive_f (n + 4) d1 ?G st1) (\<lambda>d2 st2.
      ret (d1, d2) st2)) = ret (?d1, ?d2) s2"
    by (simp add: d1 d2)
  have fresh: "\<exists>st3. setValue_f (n + 6) a (Val v1) s2 = ret Undefined st3
      \<and> value_f (n + 4) ?d1 st3 = ret (f v1) st3"
    if e: "subs = []" "ds = []" and ne: "v1 \<noteq> v0"
  proof -
    from cell have "a \<noteq> ?d2" by (auto dest: lookup_lt)
    with l1a l2o e have l2a: "lookup s2 a = Some (Cell v0 [] [?d1])"
      by (simp add: set_add_def)
    from l1d l2o have l2d1: "lookup s2 ?d1 = Some (Derived ?F a (f v0) False [])"
      by simp
    have "\<exists>st3. setValue_f (n + 6) a (Val v1) s2 = ret Undefined st3
        \<and> lookup st3 ?d1 = Some (Derived ?F a (f v1) False [])"
      unfolding fuel_Suc
      using setValue_one [OF l2a l2d1 ne, where y = "f v1" and ts = "[]" and n = n]
      by auto
    then obtain st3 where w: "setValue_f (n + 6) a (Val v1) s2 = ret Undefined st3"
      and l3: "lookup st3 ?d1 = Some (Derived ?F a (f v1) False [])"
      by blast
    from l3 have "value_f (n + 4) ?d1 st3 = ret (f v1) st3"
      unfolding fuel_Suc by (rule value_clean)
    with w show ?thesis by blast
  qed
  from chain now keep fresh show ?thesis by blast
qed

theorem second_level_stale_witness:
  "lookup st_one 0 = Some (Cell (Num 1) [] []) \<and> wf_heap st_one
   \<and> (\<exists>d1 d2 st2 st3.
      bnd (derive_f 4 0 (\<lambda>x. Ret (num_map (\<lambda>i. i + 1) x)) st_one) (\<lambda>d1 st1.
      bnd (derive_f 4 d1 (\<lambda>x. Ret (num_map (\<lambda>i. i * 10) x)) st1) (\<lambda>d2 st2.
      ret (d1, d2) st2)) = ret (d1, d2) st2
    \<and> setValue_f 6 0 (Val (Num 2)) st2 = ret Undefined st3
    \<and> value_f 4 d1 st3 = ret (Num 3) st3
    \<and> value_f 4 d2 st3 = ret (Num 20) st3)"
proof -
  have h: "lookup st_one 0 = Some (Cell (Num 1) [] [])" and wf: "wf_heap st_one"
    by (simp_all add: st_one_def lookup_def wf_heap_def)
  from second_level_stale [OF h wf, of 0 "num_map (\<lambda>i. i + 1)" "num_map (\<lambda>i. i * 10)" "Num 2"]
  obtain d1 d2 st2 where
    ch: "bnd (derive_f 4 0 (\<lambda>x. Ret (num_map (\<lambda>i. i + 1) x)) st_one) (\<lambda>d1 st1.
      bnd (derive_f 4 d1 (\<lambda>x. Ret (num_map (\<lambda>i. i * 10) x)) st1) (\<lambda>d2 st2.
      ret (d1, d2) st2)) = ret (d1, d2) st2"
    and keep: "\<And>m r w res st3. setValue_f m r w st2 = Some (res, st3)
          \<Longrightarrow> value_f 4 d2 st3 = ret (Num 20) st3"
    and fresh: "\<exists>st3. setValue_f 6 0 (Val (Num 2)) st2 = ret Undefined st3
                \<and> value_f 4 d1 st3 = ret (Num 3) st3"
    by auto
  from fresh obtain st3 where w: "setValue_f 6 0 (Val (Num 2)) st2 = ret Undefined st3"
    and r: "value_f 4 d1 st3 = ret (Num 3) st3" by blast
  from w have "setValue_f 6 0 (Val (Num 2)) st2 = Some (Inr Undefined, st3)"
    by (simp add: ret_def)
  from keep [OF this] ch w r h wf show ?thesis by blast
qed

subsection \<open>C8: a compute function that throws\<close>

lemma compute_throws:
  assumes "lookup st d = Some (Derived f a vd True dsubs)"
      and "lookup st a = Some (Cell w csubs cds)"
      and "f w = Throw e"
  shows "compute_f (Suc (Suc n)) d st
     = Some (Inl e, st\<lparr>dependencyGraph := dependencyGraph st @ [(d, a)]\<rparr>)"
  using assms by (simp add: track_def throw_def)

text \<open>
  C8, as amended. Let \<open>a\<close> be a cell without subscribers, \<open>d\<close> the first of its derived
  states, and let the compute function of \<open>d\<close> throw \<open>e\<close> at once on a new value \<open>w\<close>.
  Then \<open>a.setValue(w)\<close> throws the same \<open>e\<close> to its caller; \<open>a\<close> holds \<open>w\<close>; the cached
  value of \<open>d\<close> is untouched and \<open>d\<close> is dirty; no other node is written and nothing is
  emitted, so the derived states registered after \<open>d\<close> are not recomputed by this write
  and keep their old values; and a later \<open>d.value()\<close> runs the compute function again,
  throws \<open>e\<close> again and writes nothing: the previous value is kept in the node, but
  \<open>value()\<close> does not return it.
\<close>

theorem throw_aborts_write:
  assumes "lookup st a = Some (Cell v [] (d # ds))"
      and "lookup st d = Some (Derived f a vd dirty dsubs)"
      and "w \<noteq> v" and "f w = Throw e"
  shows "\<exists>st'. setValue_f (n + 5) a (Val w) st = Some (Inl e, st')
      \<and> lookup st' a = Some (Cell w [] (d # ds))
      \<and> lookup st' d = Some (Derived f a vd True dsubs)
      \<and> (\<forall>r. r \<noteq> a \<longrightarrow> r \<noteq> d \<longrightarrow> lookup st' r = lookup st r)
      \<and> trace st' = trace st
      \<and> (\<exists>st''. value_f (n + 3) d st' = Some (Inl e, st'')
            \<and> heap st'' = heap st' \<and> trace st'' = trace st')"
proof -
  let ?s1 = "assign a w st"
  let ?s2 = "mark_dirty d ?s1"
  let ?s3 = "?s2\<lparr>dependencyGraph := dependencyGraph ?s2 @ [(d, a)]\<rparr>"
  from assms(1) have lta: "a < length (heap st)" by (rule lookup_lt)
  from assms(2) have ltd: "d < length (heap st)" by (rule lookup_lt)
  from assms(1,2) have ne: "a \<noteq> d" by auto
  have l1a: "lookup ?s1 a = Some (Cell w [] (d # ds))"
    using assms(1) lta by (simp add: assign_def lookup_store)
  have l1d: "lookup ?s1 d = Some (Derived f a vd dirty dsubs)"
    using assms(1,2) ne by (simp add: assign_def lookup_store)
  have l1o: "lookup ?s1 r = lookup st r" if "r \<noteq> a" for r
    using that assms(1) by (simp add: assign_def lookup_store)
  have len1: "length (heap ?s1) = length (heap st)" and t1: "trace ?s1 = trace st"
    using assms(1) by (simp_all add: assign_def)
  have l2d: "lookup ?s2 d = Some (Derived f a vd True dsubs)"
    using l1d ltd len1 by (simp add: mark_dirty_def lookup_store)
  have l2a: "lookup ?s2 a = Some (Cell w [] (d # ds))"
    using l1a l1d ne by (simp add: mark_dirty_def lookup_store)
  have l2o: "lookup ?s2 r = lookup st r" if "r \<noteq> a" "r \<noteq> d" for r
    using that l1d l1o by (simp add: mark_dirty_def lookup_store)
  have t2: "trace ?s2 = trace st"
    using l1d t1 by (simp add: mark_dirty_def)
  have c: "compute_f (Suc (Suc n)) d ?s2 = Some (Inl e, ?s3)"
    by (rule compute_throws [OF l2d l2a assms(4)])
  have u: "update_f (Suc (Suc (Suc n))) d ?s1 = Some (Inl e, ?s3)"
    by (simp only: update_f.simps l1d option.case node.case c bnd_simps)
  have ua: "updateAll_f (Suc (Suc (Suc (Suc n)))) (d # ds) ?s1 = Some (Inl e, ?s3)"
    by (simp only: updateAll_f.simps u bnd_simps)
  have w: "setValue_f (n + 5) a (Val w) st = Some (Inl e, ?s3)"
    unfolding fuel_Suc using assms(1,3)
    by (simp add: currentValue_of_def subscribers_of_def ua
        del: updateAll_f.simps update_f.simps compute_f.simps)
  have l3d: "lookup ?s3 d = Some (Derived f a vd True dsubs)"
    and l3a: "lookup ?s3 a = Some (Cell w [] (d # ds))"
    using l2d l2a by simp_all
  have l3o: "lookup ?s3 r = lookup st r" if "r \<noteq> a" "r \<noteq> d" for r
    using l2o [OF that] by simp
  have t3: "trace ?s3 = trace st" using t2 by simp
  have r: "value_f (n + 3) d ?s3
      = Some (Inl e, ?s3\<lparr>dependencyGraph := dependencyGraph ?s3 @ [(d, a)]\<rparr>)"
    unfolding fuel_Suc
    by (simp only: value_f.simps l3d option.case node.case compute_throws [OF l3d l3a assms(4)])
  have "\<exists>st''. value_f (n + 3) d ?s3 = Some (Inl e, st'')
      \<and> heap st'' = heap ?s3 \<and> trace st'' = trace ?s3"
    using r by simp
  with w l3a l3d l3o t3 show ?thesis by blast
qed

theorem throw_aborts_write_witness:
  "lookup st_siblings 0 = Some (Cell (Num 0) [] [1, 2])
   \<and> lookup st_siblings 1 = Some (Derived thrower 0 (Num 0) False [])
   \<and> Num 1 \<noteq> Num 0 \<and> thrower (Num 1) = Throw (Error ''boom'')
   \<and> (\<exists>st'. setValue_f 5 0 (Val (Num 1)) st_siblings = Some (Inl (Error ''boom''), st')
      \<and> lookup st' 0 = Some (Cell (Num 1) [] [1, 2])
      \<and> lookup st' 1 = Some (Derived thrower 0 (Num 0) True [])
      \<and> lookup st' 2 = Some (Derived (\<lambda>x. Ret x) 0 (Num 0) False [])
      \<and> (\<exists>st''. value_f 3 1 st' = Some (Inl (Error ''boom''), st'') \<and> heap st'' = heap st'))"
proof -
  have h1: "lookup st_siblings 0 = Some (Cell (Num 0) [] (1 # [2]))"
    and h2: "lookup st_siblings 1 = Some (Derived thrower 0 (Num 0) False [])"
    and h5: "lookup st_siblings 2 = Some (Derived (\<lambda>x. Ret x) 0 (Num 0) False [])"
    by (simp_all add: st_siblings_def lookup_def)
  have h3: "Num 1 \<noteq> Num 0" and h4: "thrower (Num 1) = Throw (Error ''boom'')"
    by (simp_all add: thrower_def)
  from throw_aborts_write [OF h1 h2 h3 h4, of 0]
  obtain st' where r: "setValue_f 5 0 (Val (Num 1)) st_siblings = Some (Inl (Error ''boom''), st')"
    and a: "lookup st' 0 = Some (Cell (Num 1) [] [1, 2])"
    and d: "lookup st' 1 = Some (Derived thrower 0 (Num 0) True [])"
    and o: "\<And>r. r \<noteq> 0 \<Longrightarrow> r \<noteq> 1 \<Longrightarrow> lookup st' r = lookup st_siblings r"
    and again: "\<exists>st''. value_f 3 1 st' = Some (Inl (Error ''boom''), st'') \<and> heap st'' = heap st'"
    by auto
  from o [of 2] h5 have e: "lookup st' 2 = Some (Derived (\<lambda>x. Ret x) 0 (Num 0) False [])"
    by simp
  from h1 h2 h3 h4 r a d e again show ?thesis by auto
qed

text \<open>
  C8 as stated fails: with \<open>a = createReactiveState(0)\<close>, \<open>d = a.derive(thrower)\<close> and
  \<open>e = a.derive(x => x)\<close>, the write \<open>a.setValue(1)\<close> throws \<open>boom\<close>; after it \<open>a\<close> is 1
  and the sibling \<open>e\<close> is still 0, it was never recomputed; and \<open>d.value()\<close> throws
  \<open>boom\<close> again, the stale 0 is not readable. (The caller catches the two errors; every
  budget from 10 on.)
\<close>

theorem throw_leaves_sibling_stale:
  "\<forall>k. map_option fst
    (bnd (createReactiveState (Num 0) init) (\<lambda>a st1.
     bnd (derive_f (k + 10) a thrower st1) (\<lambda>d st2.
     bnd (derive_f (k + 10) a (\<lambda>x. Ret x) st2) (\<lambda>e st3.
     bnd (attempt (setValue_f (k + 10) a (Val (Num 1)) st3)) (\<lambda>w st4.
     bnd (value_f (k + 10) a st4) (\<lambda>av st5.
     bnd (value_f (k + 10) e st5) (\<lambda>ev st6.
     bnd (attempt (value_f (k + 10) d st6)) (\<lambda>dv st7.
     ret (w, av, ev, dv) st7))))))))
   = Some (Inr (Inl (Error ''boom''), Num 1, Num 0, Inl (Error ''boom'')))"
proof
  fix k
  have "map_option fst
    (bnd (createReactiveState (Num 0) init) (\<lambda>a st1.
     bnd (derive_f 10 a thrower st1) (\<lambda>d st2.
     bnd (derive_f 10 a (\<lambda>x. Ret x) st2) (\<lambda>e st3.
     bnd (attempt (setValue_f 10 a (Val (Num 1)) st3)) (\<lambda>w st4.
     bnd (value_f 10 a st4) (\<lambda>av st5.
     bnd (value_f 10 e st5) (\<lambda>ev st6.
     bnd (attempt (value_f 10 d st6)) (\<lambda>dv st7.
     ret (w, av, ev, dv) st7))))))))
   = Some (Inr (Inl (Error ''boom''), Num 1, Num 0, Inl (Error ''boom'')))"
    by code_simp
  then show "map_option fst
    (bnd (createReactiveState (Num 0) init) (\<lambda>a st1.
     bnd (derive_f (k + 10) a thrower st1) (\<lambda>d st2.
     bnd (derive_f (k + 10) a (\<lambda>x. Ret x) st2) (\<lambda>e st3.
     bnd (attempt (setValue_f (k + 10) a (Val (Num 1)) st3)) (\<lambda>w st4.
     bnd (value_f (k + 10) a st4) (\<lambda>av st5.
     bnd (value_f (k + 10) e st5) (\<lambda>ev st6.
     bnd (attempt (value_f (k + 10) d st6)) (\<lambda>dv st7.
     ret (w, av, ev, dv) st7))))))))
   = Some (Inr (Inl (Error ''boom''), Num 1, Num 0, Inl (Error ''boom'')))"
    by (elim map_option_mono attempt_bnd_mono bnd_mono)
       (auto intro: fuel_monos simp: bnd_Some ret_def)
qed

subsection \<open>C7: a derived state that reads itself\<close>

lemma lookup_heap_cong: "heap s = heap t \<Longrightarrow> lookup s r = lookup t r"
  by (simp add: lookup_def)

lemma bnd_overflow:
  "map_option fst m = Some (Inl RangeError) \<Longrightarrow> map_option fst (bnd m k) = Some (Inl RangeError)"
  by (cases m) (auto simp: bnd_def split: sum.splits)

lemma compute_self_read_overflow:
  assumes "lookup st d = Some (Derived f a v True subs)"
      and "lookup st a = Some (Cell x csubs cds)"
      and "f x = Read d k"
  shows "\<exists>st'. compute_f n d st = Some (Inl RangeError, st')
      \<and> heap st' = heap st \<and> trace st' = trace st
      \<and> currentComputation st' = currentComputation st"
  using assms
proof (induction n arbitrary: st rule: less_induct)
  case (less n)
  show ?case
  proof (cases n)
    case 0 then show ?thesis by (simp add: throw_def)
  next
    case n1: (Suc n1)
    show ?thesis
    proof (cases n1)
      case 0 with n1 less.prems show ?thesis by (simp add: throw_def)
    next
      case n2: (Suc n2)
      show ?thesis
      proof (cases n2)
        case 0 with n1 n2 less.prems show ?thesis by (simp add: throw_def)
      next
        case n3: (Suc n3)
        let ?s = "track a (st\<lparr>currentComputation := Some d\<rparr>)"
        have "\<exists>st'. compute_f n3 d ?s = Some (Inl RangeError, st')
            \<and> heap st' = heap ?s \<and> trace st' = trace ?s
            \<and> currentComputation st' = currentComputation ?s"
          using less.prems n1 n2 n3 by (intro less.IH) simp_all
        then obtain st' where c: "compute_f n3 d ?s = Some (Inl RangeError, st')"
          and h: "heap st' = heap st" and t: "trace st' = trace st"
          by auto
        from n1 n2 n3 less.prems c h t show ?thesis by simp
      qed
    qed
  qed
qed

lemma value_self_read_overflow:
  assumes "lookup st d = Some (Derived f a v True subs)"
      and "lookup st a = Some (Cell x csubs cds)"
      and "f x = Read d k"
  shows "\<exists>st'. value_f n d st = Some (Inl RangeError, st')
      \<and> heap st' = heap st \<and> trace st' = trace st
      \<and> currentComputation st' = currentComputation st"
proof (cases n)
  case 0 then show ?thesis by (simp add: throw_def)
next
  case (Suc m)
  with assms(1) compute_self_read_overflow [OF assms, of m] show ?thesis by simp
qed

text \<open>
  C7, as amended. The source detects no cycle. When \<open>compute\<close> runs for a dirty derived
  state \<open>d\<close> of a cell and the compute function, run on the value of the cell, first reads
  \<open>d\<close> itself, \<open>compute\<close> enters itself again and again until the call stack is used up:
  with any budget \<open>d.value()\<close> fails with the engine's \<open>RangeError\<close> (not with a
  \<open>CyclicDependencyError\<close>), the cached value of \<open>d\<close> remains at its prior state and
  \<open>d\<close> stays dirty (no node is written, nothing is emitted, \<open>currentComputation\<close> is
  put back), and the next read retries and fails in the same way.
\<close>

theorem self_read_overflows:
  assumes "lookup st d = Some (Derived f a v True subs)"
      and "lookup st a = Some (Cell x csubs cds)"
      and "f x = Read d k"
  shows "\<exists>st'. value_f n d st = Some (Inl RangeError, st')
      \<and> lookup st' d = Some (Derived f a v True subs)
      \<and> heap st' = heap st \<and> trace st' = trace st
      \<and> currentComputation st' = currentComputation st
      \<and> (\<exists>st''. value_f m d st' = Some (Inl RangeError, st'')
            \<and> lookup st'' d = Some (Derived f a v True subs))"
proof -
  from value_self_read_overflow [OF assms, of n]
  obtain st' where r1: "value_f n d st = Some (Inl RangeError, st')"
    and h1: "heap st' = heap st" and t1: "trace st' = trace st"
    and c1: "currentComputation st' = currentComputation st"
    by blast
  from h1 assms(1,2) have d1: "lookup st' d = Some (Derived f a v True subs)"
    and a1: "lookup st' a = Some (Cell x csubs cds)"
    by (simp_all add: lookup_heap_cong [OF h1])
  from value_self_read_overflow [OF d1 a1 assms(3), of m]
  obtain st'' where r2: "value_f m d st' = Some (Inl RangeError, st'')"
    and h2: "heap st'' = heap st'"
    by blast
  from h2 d1 have d2: "lookup st'' d = Some (Derived f a v True subs)"
    by (simp add: lookup_heap_cong [OF h2])
  from r1 d1 h1 t1 c1 r2 d2 show ?thesis by blast
qed

theorem self_read_overflows_witness:
  "lookup st_cyclic 1 = Some (Derived (selfreader 1) 0 (Num 0) True [])
   \<and> lookup st_cyclic 0 = Some (Cell (Num 1) [] [1])
   \<and> selfreader 1 (Num 1) = Read 1 (\<lambda>v. Ret (num_map (\<lambda>i. i + 1) v))
   \<and> (\<forall>n m. \<exists>st'. value_f n 1 st_cyclic = Some (Inl RangeError, st')
      \<and> lookup st' 1 = Some (Derived (selfreader 1) 0 (Num 0) True [])
      \<and> heap st' = heap st_cyclic
      \<and> (\<exists>st''. value_f m 1 st' = Some (Inl RangeError, st'')
            \<and> lookup st'' 1 = Some (Derived (selfreader 1) 0 (Num 0) True [])))"
proof -
  have h1: "lookup st_cyclic 1 = Some (Derived (selfreader 1) 0 (Num 0) True [])"
    and h2: "lookup st_cyclic 0 = Some (Cell (Num 1) [] [1])"
    and h3: "selfreader 1 (Num 1) = Read 1 (\<lambda>v. Ret (num_map (\<lambda>i. i + 1) v))"
    by (simp_all add: st_cyclic_def lookup_def selfreader_def)
  from self_read_overflows [OF h1 h2 h3] h1 h2 h3 show ?thesis by blast
qed

text \<open>
  C7 as stated fails: with \<open>a = createReactiveState(0)\<close> and
  \<open>const d = a.derive(x => x === 0 ? 0 : d.value() + 1)\<close>, the write \<open>a.setValue(1)\<close>
  makes \<open>d\<close> read itself, and what the caller gets, with any budget, is the engine's
  \<open>RangeError\<close>: no error of the library's own says that there is a cycle.
\<close>

theorem cycle_not_detected:
  "\<forall>k n. map_option fst
     (bnd (createReactiveState (Num 0) init) (\<lambda>a st1.
      bnd (derive_f (k + 4) a (selfreader 1) st1) (\<lambda>d st2.
      bnd (value_f (k + 4) d st2) (\<lambda>x st3.
      setValue_f n a (Val (Num 1)) st3)))) = Some (Inl RangeError)"
proof (intro allI)
  fix k n
  let ?F = "selfreader 1"
  define s1 where "s1 = alloc (Cell (Num 0) [] []) init"
  have c: "createReactiveState (Num 0) init = ret 0 s1"
    by (simp add: createReactiveState_def s1_def init_def)
  have l1: "lookup s1 0 = Some (Cell (Num 0) [] [])" and len1: "length (heap s1) = 1"
    by (simp_all add: s1_def lookup_alloc init_def)
  have "\<exists>s2. derive_f (k + 4) 0 ?F s1 = ret 1 s2
      \<and> lookup s2 0 = Some (Cell (Num 0) [] [1])
      \<and> lookup s2 1 = Some (Derived ?F 0 (Num 0) False [])"
    unfolding fuel_Suc
    using derive_cell_straight [OF l1, where f = ?F and y = "Num 0" and ts = "[]" and n = "Suc k"]
    by (auto simp: len1 set_add_def selfreader_def)
  then obtain s2 where d: "derive_f (k + 4) 0 ?F s1 = ret 1 s2"
    and l2a: "lookup s2 0 = Some (Cell (Num 0) [] [1])"
    and l2d: "lookup s2 1 = Some (Derived ?F 0 (Num 0) False [])"
    by blast
  have r: "value_f (k + 4) 1 s2 = ret (Num 0) s2"
    unfolding fuel_Suc by (rule value_clean [OF l2d])
  from l2a have lta: "0 < length (heap s2)" by (rule lookup_lt)
  from l2d have ltd: "1 < length (heap s2)" by (rule lookup_lt)
  let ?s3 = "assign 0 (Num 1) s2"
  have l3a: "lookup ?s3 0 = Some (Cell (Num 1) [] [1])"
    using l2a lta by (simp add: assign_def lookup_store)
  have l3d: "lookup ?s3 1 = Some (Derived ?F 0 (Num 0) False [])"
    using l2a l2d by (simp add: assign_def lookup_store)
  let ?s4 = "mark_dirty 1 ?s3"
  have l4d: "lookup ?s4 1 = Some (Derived ?F 0 (Num 0) True [])"
    using l3d ltd l2a by (simp add: mark_dirty_def lookup_store assign_def)
  have l4a: "lookup ?s4 0 = Some (Cell (Num 1) [] [1])"
    using l3a l3d by (simp add: mark_dirty_def lookup_store)
  have h3: "?F (Num 1) = Read 1 (\<lambda>v. Ret (num_map (\<lambda>i. i + 1) v))"
    by (simp add: selfreader_def)
  have div: "map_option fst (compute_f m 1 ?s4) = Some (Inl RangeError)" for m
    using compute_self_read_overflow [OF l4d l4a h3, of m] by auto
  have u: "map_option fst (update_f m 1 ?s3) = Some (Inl RangeError)" for m
  proof (cases m)
    case 0 then show ?thesis by (simp add: throw_def)
  next
    case (Suc j)
    have "update_f (Suc j) 1 ?s3 = bnd (compute_f j 1 ?s4) (\<lambda>newValue st1.
        if newValue \<noteq> Num 0
        then forEach_f j (\<lambda>_. newValue) (subscribers_of st1 1) st1
        else ret Undefined st1)"
      by (simp only: update_f.simps l3d option.case node.case)
    with Suc show ?thesis by (simp only: bnd_overflow [OF div])
  qed
  have ua: "map_option fst (updateAll_f m [1] ?s3) = Some (Inl RangeError)" for m
  proof (cases m)
    case 0 then show ?thesis by (simp add: throw_def)
  next
    case (Suc j)
    have "updateAll_f (Suc j) [1] ?s3 = bnd (update_f j 1 ?s3) (\<lambda>_ st1. updateAll_f j [] st1)"
      by (simp only: updateAll_f.simps)
    with Suc show ?thesis by (simp only: bnd_overflow [OF u])
  qed
  have w: "map_option fst (setValue_f n 0 (Val (Num 1)) s2) = Some (Inl RangeError)"
  proof (cases n)
    case 0 then show ?thesis by (simp add: throw_def)
  next
    case (Suc j)
    show ?thesis
    proof (cases j)
      case 0
      with Suc l2a show ?thesis
        by (simp add: currentValue_of_def subscribers_of_def throw_def)
    next
      case i: (Suc i)
      have "setValue_f (Suc (Suc i)) 0 (Val (Num 1)) s2 = updateAll_f (Suc i) [1] ?s3"
        using l2a by (simp add: currentValue_of_def subscribers_of_def del: updateAll_f.simps)
      with Suc i show ?thesis by (simp only: ua)
    qed
  qed
  show "map_option fst
     (bnd (createReactiveState (Num 0) init) (\<lambda>a st1.
      bnd (derive_f (k + 4) a (selfreader 1) st1) (\<lambda>d st2.
      bnd (value_f (k + 4) d st2) (\<lambda>x st3.
      setValue_f n a (Val (Num 1)) st3)))) = Some (Inl RangeError)"
    by (simp only: c d r w bnd_simps)
qed

subsection \<open>C6: a write from inside a compute function\<close>

text \<open>
  C6, as amended. A write from inside a compute function is not rejected: \<open>setValue\<close>
  does not look at \<open>currentComputation\<close>. When the compute function of a dirty derived
  state of a cell \<open>a\<close> writes \<open>w\<close> to a cell \<open>c\<close> and then returns, where \<open>c\<close> is another
  cell than \<open>a\<close>, has no subscribers and no derived states and holds another value than
  \<open>w\<close>, the write is applied (\<open>c\<close> holds \<open>w\<close>), \<open>value()\<close> of the derived state returns
  the result of the function, and the derived state is clean with that result cached.
\<close>

theorem write_during_compute_applied:
  assumes "lookup st d = Some (Derived (\<lambda>x. Write c w (Ret (g x))) a u True subs)"
      and "lookup st a = Some (Cell x asubs ads)"
      and "lookup st c = Some (Cell v [] [])"
      and "c \<noteq> a" and "w \<noteq> v"
  shows "\<exists>st'. value_f (n + 6) d st = ret (g x) st'
      \<and> lookup st' c = Some (Cell w [] [])
      \<and> lookup st' d = Some (Derived (\<lambda>x. Write c w (Ret (g x))) a (g x) False subs)"
proof -
  let ?s1 = "track a (st\<lparr>currentComputation := Some d\<rparr>)"
  from assms(1,3) have ne: "c \<noteq> d" by auto
  from assms(1) have ltd: "d < length (heap st)" by (rule lookup_lt)
  from assms(3) have ltc: "c < length (heap st)" by (rule lookup_lt)
  have w: "setValue_f (Suc (Suc (Suc n))) c (Val w) ?s1 = ret Undefined (assign c w ?s1)"
    using assms(3,5) by (simp add: currentValue_of_def subscribers_of_def)
  have lc: "lookup (assign c w ?s1) c = Some (Cell w [] [])"
    using assms(3) ltc by (simp add: assign_def lookup_store)
  have ld: "lookup (assign c w ?s1) d = Some (Derived (\<lambda>x. Write c w (Ret (g x))) a u True subs)"
    using assms(1,3) ne by (simp add: assign_def lookup_store)
  have len: "length (heap (assign c w ?s1)) = length (heap st)"
    using assms(3) by (simp add: assign_def)
  show ?thesis
    unfolding fuel_Suc
    using assms(1,2) ne ltd lc ld len
    by (simp add: w cache_def lookup_store del: setValue_f.simps)
qed

theorem write_during_compute_applied_witness:
  "lookup st_computing 2 = Some (Derived (\<lambda>x. Write 1 (Num 5) (Ret x)) 0 Undefined True [])
   \<and> lookup st_computing 0 = Some (Cell (Num 0) [] [])
   \<and> lookup st_computing 1 = Some (Cell (Num 0) [] [])
   \<and> (1::nat) \<noteq> 0 \<and> Num 5 \<noteq> Num 0
   \<and> (\<exists>st'. value_f 6 2 st_computing = ret (Num 0) st'
      \<and> lookup st' 1 = Some (Cell (Num 5) [] [])
      \<and> lookup st' 2 = Some (Derived (\<lambda>x. Write 1 (Num 5) (Ret x)) 0 (Num 0) False []))"
proof -
  have h1: "lookup st_computing 2 = Some (Derived (\<lambda>x. Write 1 (Num 5) (Ret x)) 0 Undefined True [])"
    and h2: "lookup st_computing 0 = Some (Cell (Num 0) [] [])"
    and h3: "lookup st_computing 1 = Some (Cell (Num 0) [] [])"
    by (simp_all add: st_computing_def lookup_def)
  have h4: "(1::nat) \<noteq> 0" and h5: "Num 5 \<noteq> Num 0" by simp_all
  from write_during_compute_applied [OF h1 h2 h3 h4 h5, of 0] h1 h2 h3 show ?thesis
    by simp
qed

text \<open>
  C6 as stated fails: \<open>a.derive(x => { c.setValue(5); return x })\<close> returns the new
  state, no error, and \<open>c.value()\<close> is 5.
\<close>

theorem write_during_compute_not_rejected:
  "\<forall>k. map_option fst
    (bnd (createReactiveState (Num 0) init) (\<lambda>a st1.
     bnd (createReactiveState (Num 0) st1) (\<lambda>c st2.
     bnd (derive_f (k + 10) a (\<lambda>x. Write c (Num 5) (Ret x)) st2) (\<lambda>d st3.
     bnd (value_f (k + 10) c st3) (\<lambda>y st4.
     ret (d, y) st4)))))
   = Some (Inr (2, Num 5))"
proof
  fix k
  have "map_option fst
    (bnd (createReactiveState (Num 0) init) (\<lambda>a st1.
     bnd (createReactiveState (Num 0) st1) (\<lambda>c st2.
     bnd (derive_f 10 a (\<lambda>x. Write c (Num 5) (Ret x)) st2) (\<lambda>d st3.
     bnd (value_f 10 c st3) (\<lambda>y st4.
     ret (d, y) st4)))))
   = Some (Inr (2, Num 5))"
    by code_simp
  then show "map_option fst
    (bnd (createReactiveState (Num 0) init) (\<lambda>a st1.
     bnd (createReactiveState (Num 0) st1) (\<lambda>c st2.
     bnd (derive_f (k + 10) a (\<lambda>x. Write c (Num 5) (Ret x)) st2) (\<lambda>d st3.
     bnd (value_f (k + 10) c st3) (\<lambda>y st4.
     ret (d, y) st4)))))
   = Some (Inr (2, Num 5))"
    by (elim map_option_mono bnd_mono) (auto intro: fuel_monos)
qed

subsection \<open>C4: when the compute function runs\<close>

text \<open>
  C4, as amended, for a compute function \<open>fn\<close> that logs \<open>t x\<close> and returns \<open>g x\<close>
  without calling back into the engine.
  \<^item> Creation: \<open>a.derive(fn)\<close> on a cell \<open>a\<close> of any state, and \<open>createDerivedState(fn, a)\<close>,
    run \<open>fn\<close> once before they return (the log has one more entry, \<open>t v\<close> for the value
    \<open>v\<close> of the cell), and the new node is clean with \<open>g v\<close> cached: the first run is at
    creation, not at the first read.
  \<^item> Write: when \<open>a\<close> has no subscribers and \<open>d\<close>, a derived state of \<open>a\<close> with \<open>fn\<close> and
    without subscribers, is its only derived state, \<open>a.setValue(w)\<close> with a new value runs
    \<open>fn\<close> once during the write (one more entry, \<open>t w\<close>, when \<open>setValue\<close> returns) and
    leaves \<open>d\<close> clean with \<open>g w\<close> cached: the recomputation is not put off to a read.
  \<^item> Read: \<open>value()\<close> of a derived state that is not dirty, whatever its compute function,
    returns the cached value and leaves the whole state as it is: it runs nothing.
\<close>

theorem derived_compute_eager:
  "(lookup st a = Some (Cell v subs ds) \<longrightarrow>
      (\<exists>st'. derive_f (n + 3) a (\<lambda>x. Emit (t x) (Ret (g x))) st = ret (length (heap st)) st'
         \<and> trace st' = trace st @ [t v]
         \<and> lookup st' (length (heap st))
             = Some (Derived (\<lambda>x. Emit (t x) (Ret (g x))) a (g v) False []))
    \<and> (\<exists>st'. createDerivedState_f (n + 3) (\<lambda>x. Emit (t x) (Ret (g x))) a st
             = ret (length (heap st)) st'
         \<and> trace st' = trace st @ [t v]
         \<and> lookup st' (length (heap st))
             = Some (Derived (\<lambda>x. Emit (t x) (Ret (g x))) a (g v) False [])))
 \<and> (lookup st a = Some (Cell v [] [d])
      \<and> lookup st d = Some (Derived (\<lambda>x. Emit (t x) (Ret (g x))) a vd dirty [])
      \<and> w \<noteq> v \<longrightarrow>
      (\<exists>st'. setValue_f (n + 6) a (Val w) st = ret Undefined st'
         \<and> trace st' = trace st @ [t w]
         \<and> lookup st' d = Some (Derived (\<lambda>x. Emit (t x) (Ret (g x))) a (g w) False [])))
 \<and> (lookup st d = Some (Derived f dep vd False dsubs) \<longrightarrow>
      value_f (n + 2) d st = ret vd st)"
proof (intro conjI impI)
  let ?F = "\<lambda>x. Emit (t x) (Ret (g x))"
  {
    assume cell: "lookup st a = Some (Cell v subs ds)"
    show "\<exists>st'. derive_f (n + 3) a ?F st = ret (length (heap st)) st'
         \<and> trace st' = trace st @ [t v]
         \<and> lookup st' (length (heap st)) = Some (Derived ?F a (g v) False [])"
      unfolding fuel_Suc
      using derive_cell_straight [OF cell, where f = ?F and y = "g v" and ts = "[t v]" and n = n]
      by auto
    show "\<exists>st'. createDerivedState_f (n + 3) ?F a st = ret (length (heap st)) st'
         \<and> trace st' = trace st @ [t v]
         \<and> lookup st' (length (heap st)) = Some (Derived ?F a (g v) False [])"
      unfolding fuel_Suc
      using createDerivedState_straight [OF cell, where f = ?F and y = "g v" and ts = "[t v]"
          and n = n]
      by auto
  }
  {
    assume h: "lookup st a = Some (Cell v [] [d])
      \<and> lookup st d = Some (Derived ?F a vd dirty []) \<and> w \<noteq> v"
    then have la: "lookup st a = Some (Cell v [] [d])"
      and ld: "lookup st d = Some (Derived ?F a vd dirty [])" and ne: "w \<noteq> v"
      by simp_all
    show "\<exists>st'. setValue_f (n + 6) a (Val w) st = ret Undefined st'
         \<and> trace st' = trace st @ [t w]
         \<and> lookup st' d = Some (Derived ?F a (g w) False [])"
      unfolding fuel_Suc
      using setValue_one [OF la ld ne, where y = "g w" and ts = "[t w]" and n = n]
      by auto
  }
  {
    assume "lookup st d = Some (Derived f dep vd False dsubs)"
    then show "value_f (n + 2) d st = ret vd st"
      unfolding fuel_Suc by (rule value_clean)
  }
qed

theorem derived_compute_eager_witness:
  "lookup st_derived 0 = Some (Cell (Num 1) [] [1])
   \<and> lookup st_derived 1 = Some (Derived (\<lambda>x. Emit x (Ret x)) 0 (Num 1) False [])
   \<and> Num 2 \<noteq> Num 1
   \<and> (\<exists>st'. derive_f 3 0 (\<lambda>x. Emit x (Ret x)) st_derived = ret 2 st'
        \<and> trace st' = [Num 1]
        \<and> lookup st' 2 = Some (Derived (\<lambda>x. Emit x (Ret x)) 0 (Num 1) False []))
   \<and> (\<exists>st'. createDerivedState_f 3 (\<lambda>x. Emit x (Ret x)) 0 st_derived = ret 2 st'
        \<and> trace st' = [Num 1]
        \<and> lookup st' 2 = Some (Derived (\<lambda>x. Emit x (Ret x)) 0 (Num 1) False []))
   \<and> (\<exists>st'. setValue_f 6 0 (Val (Num 2)) st_derived = ret Undefined st'
        \<and> trace st' = [Num 2]
        \<and> lookup st' 1 = Some (Derived (\<lambda>x. Emit x (Ret x)) 0 (Num 2) False []))
   \<and> value_f 2 1 st_derived = ret (Num 1) st_derived"
proof -
  have h1: "lookup st_derived 0 = Some (Cell (Num 1) [] [1])"
    and h2: "lookup st_derived 1 = Some (Derived (\<lambda>x. Emit x (Ret x)) 0 (Num 1) False [])"
    and len: "length (heap st_derived) = 2" and tr: "trace st_derived = []"
    by (simp_all add: st_derived_def lookup_def)
  have h3: "Num 2 \<noteq> Num 1" by simp
  from derived_compute_eager [where st = st_derived and a = 0 and v = "Num 1" and subs = "[]"
      and ds = "[1]" and n = 0 and t = "\<lambda>x. x" and g = "\<lambda>x. x" and d = 1 and vd = "Num 1"
      and dirty = False and w = "Num 2" and f = "\<lambda>x. Emit x (Ret x)" and dep = 0
      and dsubs = "[]"] h1 h2 h3
  show ?thesis
    by (simp add: len tr numeral_2_eq_2 del: value_f.simps setValue_f.simps compute_f.simps update_f.simps)
qed

text \<open>
  C4 as stated fails: with \<open>fn = x => { log.push(x); return x }\<close> the log is \<open>[1]\<close>
  when \<open>derive\<close> returns, before any read, and \<open>[1, 2]\<close> when \<open>a.setValue(2)\<close> returns,
  before any read.
\<close>

theorem derived_compute_not_lazy:
  "\<forall>k. map_option fst
    (bnd (createReactiveState (Num 1) init) (\<lambda>a st1.
     bnd (derive_f (k + 10) a (\<lambda>x. Emit x (Ret x)) st1) (\<lambda>d st2.
     bnd (setValue_f (k + 10) a (Val (Num 2)) st2) (\<lambda>_ st3.
     ret (trace st2, trace st3) st3))))
   = Some (Inr ([Num 1], [Num 1, Num 2]))"
proof
  fix k
  have "map_option fst
    (bnd (createReactiveState (Num 1) init) (\<lambda>a st1.
     bnd (derive_f 10 a (\<lambda>x. Emit x (Ret x)) st1) (\<lambda>d st2.
     bnd (setValue_f 10 a (Val (Num 2)) st2) (\<lambda>_ st3.
     ret (trace st2, trace st3) st3))))
   = Some (Inr ([Num 1], [Num 1, Num 2]))"
    by code_simp
  then show "map_option fst
    (bnd (createReactiveState (Num 1) init) (\<lambda>a st1.
     bnd (derive_f (k + 10) a (\<lambda>x. Emit x (Ret x)) st1) (\<lambda>d st2.
     bnd (setValue_f (k + 10) a (Val (Num 2)) st2) (\<lambda>_ st3.
     ret (trace st2, trace st3) st3))))
   = Some (Inr ([Num 1], [Num 1, Num 2]))"
    by (elim map_option_mono bnd_mono) (auto intro: fuel_monos)
qed

subsection \<open>C2: the diamond\<close>

text \<open>
  C2. \<open>a = createReactiveState(1)\<close>, \<open>b = a.derive(x => x + 1)\<close>,
  \<open>c = a.derive(x => x * 10)\<close>, \<open>d = createComputed(() => b.value() + c.value())\<close>, where
  the function of \<open>d\<close> also logs its result. After \<open>a.setValue(2)\<close>, \<open>b\<close> is 3 and \<open>c\<close> is
  20, but \<open>d.value()\<close> is 12, not 23, and the function of \<open>d\<close> ran at creation only: \<open>d\<close>
  derives from a dummy cell that nothing writes.
\<close>

theorem diamond_computed_stale:
  "map_option (\<lambda>(r, s). (r, trace s))
    (bnd (createReactiveState (Num 1) init) (\<lambda>a st1.
     bnd (derive_f (k + 10) a (\<lambda>x. Ret (num_map (\<lambda>i. i + 1) x)) st1) (\<lambda>b st2.
     bnd (derive_f (k + 10) a (\<lambda>x. Ret (num_map (\<lambda>i. i * 10) x)) st2) (\<lambda>c st3.
     bnd (createComputed_f (k + 10) (diamond_sum b c) st3) (\<lambda>d st4.
     bnd (setValue_f (k + 10) a (Val (Num 2)) st4) (\<lambda>_ st5.
     bnd (value_f (k + 10) b st5) (\<lambda>bv st6.
     bnd (value_f (k + 10) c st6) (\<lambda>cv st7.
     bnd (value_f (k + 10) d st7) (\<lambda>dv st8.
     ret (bv, cv, dv) st8)))))))))
   = Some (Inr (Num 3, Num 20, Num 12), [Num 12])"
proof -
  have "map_option (\<lambda>(r, s). (r, trace s))
    (bnd (createReactiveState (Num 1) init) (\<lambda>a st1.
     bnd (derive_f 10 a (\<lambda>x. Ret (num_map (\<lambda>i. i + 1) x)) st1) (\<lambda>b st2.
     bnd (derive_f 10 a (\<lambda>x. Ret (num_map (\<lambda>i. i * 10) x)) st2) (\<lambda>c st3.
     bnd (createComputed_f 10 (diamond_sum b c) st3) (\<lambda>d st4.
     bnd (setValue_f 10 a (Val (Num 2)) st4) (\<lambda>_ st5.
     bnd (value_f 10 b st5) (\<lambda>bv st6.
     bnd (value_f 10 c st6) (\<lambda>cv st7.
     bnd (value_f 10 d st7) (\<lambda>dv st8.
     ret (bv, cv, dv) st8)))))))))
   = Some (Inr (Num 3, Num 20, Num 12), [Num 12])"
    by code_simp
  then show ?thesis
    by (elim map_option_mono bnd_mono) (auto intro: fuel_monos)
qed

subsection \<open>C5: effects\<close>

text \<open>
  C5. \<open>a = createReactiveState(0)\<close> and
  \<open>unsub = createReactiveEffect(() => log.push(a.value()))\<close>: the effect runs once at
  creation (the log is \<open>[0]\<close>); after \<open>a.setValue(1)\<close>, \<open>a\<close> is 1 and the log is still
  \<open>[0]\<close>, the effect did not run again; \<open>unsub()\<close> deletes the subscription on the
  dummy cell (it returns true and no subscriber is left).
\<close>

theorem effect_never_rerun:
  "map_option fst
    (bnd (createReactiveState (Num 0) init) (\<lambda>a st1.
     bnd (createReactiveEffect_f (k + 10) (Read a logger) st1) (\<lambda>unsub st2.
     bnd (setValue_f (k + 10) a (Val (Num 1)) st2) (\<lambda>_ st3.
     bnd (value_f (k + 10) a st3) (\<lambda>x st4.
     bnd (unsubscribe unsub st4) (\<lambda>deleted st5.
     ret (trace st2, x, trace st4, deleted, length (subscribers_of st5 (fst unsub))) st5))))))
   = Some (Inr ([Num 0], Num 1, [Num 0], Bool True, 0))"
proof -
  have "map_option fst
    (bnd (createReactiveState (Num 0) init) (\<lambda>a st1.
     bnd (createReactiveEffect_f 10 (Read a logger) st1) (\<lambda>unsub st2.
     bnd (setValue_f 10 a (Val (Num 1)) st2) (\<lambda>_ st3.
     bnd (value_f 10 a st3) (\<lambda>x st4.
     bnd (unsubscribe unsub st4) (\<lambda>deleted st5.
     ret (trace st2, x, trace st4, deleted, length (subscribers_of st5 (fst unsub))) st5))))))
   = Some (Inr ([Num 0], Num 1, [Num 0], Bool True, 0))"
    by code_simp
  then show ?thesis
    by (elim map_option_mono bnd_mono) (auto intro: fuel_monos)
qed

subsection \<open>C3: batch\<close>

text \<open>
  C3. With a subscriber of \<open>a\<close> that logs the value,
  \<open>batch([() => a.setValue(1), () => a.setValue(2)])\<close> logs \<open>[1, 2]\<close>: every write
  notifies at once. With an effect that logs \<open>a.value()\<close> instead, the log is \<open>[0]\<close>
  after the batch as before it.
\<close>

theorem batch_not_coalesced:
  "map_option (\<lambda>(r, s). trace s)
    (bnd (createReactiveState (Num 0) init) (\<lambda>a st1.
     bnd (subscribe a (0, logger) st1) (\<lambda>_ st2.
     batch_f (k + 10) [write_thunk a (Num 1), write_thunk a (Num 2)] st2)))
   = Some [Num 1, Num 2]
 \<and> map_option (\<lambda>(r, s). trace s)
    (bnd (createReactiveState (Num 0) init) (\<lambda>a st1.
     bnd (createReactiveEffect_f (k + 10) (Read a logger) st1) (\<lambda>_ st2.
     batch_f (k + 10) [write_thunk a (Num 1), write_thunk a (Num 2)] st2)))
   = Some [Num 0]"
proof
  have "map_option (\<lambda>(r, s). (r, trace s))
    (bnd (createReactiveState (Num 0) init) (\<lambda>a st1.
     bnd (subscribe a (0, logger) st1) (\<lambda>_ st2.
     batch_f 10 [write_thunk a (Num 1), write_thunk a (Num 2)] st2)))
   = Some (Inr Undefined, [Num 1, Num 2])"
    by code_simp
  then have "map_option (\<lambda>(r, s). (r, trace s))
    (bnd (createReactiveState (Num 0) init) (\<lambda>a st1.
     bnd (subscribe a (0, logger) st1) (\<lambda>_ st2.
     batch_f (k + 10) [write_thunk a (Num 1), write_thunk a (Num 2)] st2)))
   = Some (Inr Undefined, [Num 1, Num 2])"
    by (elim map_option_mono bnd_mono) (auto intro: fuel_monos simp del: batch_f.simps)
  then show "map_option (\<lambda>(r, s). trace s)
    (bnd (createReactiveState (Num 0) init) (\<lambda>a st1.
     bnd (subscribe a (0, logger) st1) (\<lambda>_ st2.
     batch_f (k + 10) [write_thunk a (Num 1), write_thunk a (Num 2)] st2)))
   = Some [Num 1, Num 2]"
    by auto
  have "map_option (\<lambda>(r, s). (r, trace s))
    (bnd (createReactiveState (Num 0) init) (\<lambda>a st1.
     bnd (createReactiveEffect_f 10 (Read a logger) st1) (\<lambda>_ st2.
     batch_f 10 [write_thunk a (Num 1), write_thunk a (Num 2)] st2)))
   = Some (Inr Undefined, [Num 0])"
    by code_simp
  then have "map_option (\<lambda>(r, s). (r, trace s))
    (bnd (createReactiveState (Num 0) init) (\<lambda>a st1.
     bnd (createReactiveEffect_f (k + 10) (Read a logger) st1) (\<lambda>_ st2.
     batch_f (k + 10) [write_thunk a (Num 1), write_thunk a (Num 2)] st2)))
   = Some (Inr Undefined, [Num 0])"
    by (elim map_option_mono bnd_mono) (auto intro: fuel_monos simp del: batch_f.simps)
  then show "map_option (\<lambda>(r, s). trace s)
    (bnd (createReactiveState (Num 0) init) (\<lambda>a st1.
     bnd (createReactiveEffect_f (k + 10) (Read a logger) st1) (\<lambda>_ st2.
     batch_f (k + 10) [write_thunk a (Num 1), write_thunk a (Num 2)] st2)))
   = Some [Num 0]"
    by auto
qed

end
